theory Spec2Isabelle
  imports Main "HOL-Library.Sublist"
begin

section \<open>trifle: Quattor JSON profiles to resource paths\<close>

text \<open>
  A shallow embedding of \<^verbatim>\<open>aquilon/src/trifle/trifle.c\<close>. Bytes are \<^typ>\<open>char\<close>
  (eight bits), C strings are byte lists without the terminating NUL, and the
  global option variables are the fields of a configuration record.

  Two facts of the C data model are not decided by the source and are made explicit:
  \<^item> the width of \<^verbatim>\<open>long\<close>: the field \<open>lp64\<close> says whether \<^verbatim>\<open>long\<close> has 64 bits
    (LP64) or 32 (ILP32); \<^verbatim>\<open>unsigned int\<close> has 32 bits in both;
  \<^item> library calls that open or write a stream succeed.
\<close>

subsection \<open>Configuration (the global option variables)\<close>

record config =
  unescape :: bool          \<comment> \<open>\<^verbatim>\<open>-e\<close>: unescape path components\<close>
  terminals :: bool         \<comment> \<open>cleared by \<^verbatim>\<open>-h\<close>: structural entries are displayed\<close>
  gen_index :: bool         \<comment> \<open>cleared by \<^verbatim>\<open>-I\<close>: list index numbers are generated\<close>
  multiline :: bool         \<comment> \<open>\<^verbatim>\<open>-n\<close>\<close>
  multiprefix :: bool       \<comment> \<open>\<^verbatim>\<open>-p\<close>\<close>
  to_stdout :: bool         \<comment> \<open>\<^verbatim>\<open>-t\<close>\<close>
  slices :: "string list"   \<comment> \<open>\<^verbatim>\<open>-s\<close>: the slices buffer, one entry per string\<close>
  lp64 :: bool              \<comment> \<open>\<^verbatim>\<open>long\<close> is 64 bits wide\<close>

definition defaults :: config where
  "defaults = \<lparr>unescape = False, terminals = True, gen_index = True, multiline = False,
     multiprefix = False, to_stdout = False, slices = [], lp64 = True\<rparr>"

definition MAXBUF :: nat where
  "MAXBUF = 4096"

definition ULONG_MAX :: "config \<Rightarrow> nat" where
  "ULONG_MAX cfg = (if lp64 cfg then 2 ^ 64 - 1 else 2 ^ 32 - 1)"

datatype error = TokenTooLong | UnescapeOverflow | UnicodeError

subsection \<open>Bytes and C strings\<close>

abbreviation NUL :: char where "NUL \<equiv> CHR 0x00"
abbreviation LF :: char where "LF \<equiv> CHR 0x0A"
abbreviation dquote :: char where "dquote \<equiv> CHR 0x22"
abbreviation backslash :: char where "backslash \<equiv> CHR 0x5C"

definition byte :: "char \<Rightarrow> nat" where
  "byte c = of_char c"

definition isdigit :: "char \<Rightarrow> bool" where
  "isdigit c = (48 \<le> byte c \<and> byte c \<le> 57)"

definition isxdigit :: "char \<Rightarrow> bool" where
  "isxdigit c = (isdigit c \<or> (97 \<le> byte c \<and> byte c \<le> 102) \<or> (65 \<le> byte c \<and> byte c \<le> 70))"

text \<open>The string a \<^verbatim>\<open>char *\<close> denotes: the bytes of a buffer before its first NUL.\<close>

definition cstr :: "char list \<Rightarrow> char list" where
  "cstr buf = takeWhile (\<lambda>c. c \<noteq> NUL) buf"

text \<open>\<^verbatim>\<open>snprintf(buf, 30, "%lu", idx)\<close>\<close>

fun decimal :: "nat \<Rightarrow> char list" where
  "decimal n = (if n < 10 then [char_of (48 + n)]
                else decimal (n div 10) @ [char_of (48 + n mod 10)])"

declare decimal.simps [simp del]

text \<open>
  \<^verbatim>\<open>strtoul(s, &q, 10)\<close> on a string that starts with a digit: the value of the longest
  digit prefix, \<^verbatim>\<open>ULONG_MAX\<close> when it does not fit, and the rest of the string.
\<close>

definition digits_value :: "char list \<Rightarrow> nat" where
  "digits_value ds = foldl (\<lambda>n c. 10 * n + (byte c - 48)) 0 ds"

definition strtoul10 :: "config \<Rightarrow> char list \<Rightarrow> nat \<times> char list" where
  "strtoul10 cfg s = (min (digits_value (takeWhile isdigit s)) (ULONG_MAX cfg), dropWhile isdigit s)"

text \<open>\<^verbatim>\<open>strtoul(hex, NULL, 16)\<close> on two hexadecimal digits.\<close>

definition hexval :: "char \<Rightarrow> nat" where
  "hexval c = (if isdigit c then byte c - 48
               else if 97 \<le> byte c \<and> byte c \<le> 102 then byte c - 87
               else byte c - 55)"

subsection \<open>\<^verbatim>\<open>str_unescape\<close>\<close>

text \<open>
  The loop of \<^verbatim>\<open>str_unescape\<close>. \<open>out\<close> is the part of \<^verbatim>\<open>buf+1\<close> written so far
  (\<^verbatim>\<open>len\<close> is its length), \<open>prev\<close> is \<^verbatim>\<open>*(p-1)\<close>, and the empty list is the
  iteration that reads the terminating NUL. \<open>None\<close> is the jump to
  \<^verbatim>\<open>unescape_overflow\<close>.
\<close>

definition unescapable :: "nat \<Rightarrow> bool" where
  "unescapable n = ((0x20 \<le> n \<and> n \<le> 0x40) \<or> (0x5b \<le> n \<and> n \<le> 0x60) \<or> (0x7b \<le> n \<and> n \<le> 0x7e))"

fun unescape_loop :: "nat \<Rightarrow> char list \<Rightarrow> nat \<Rightarrow> char \<Rightarrow> char list \<Rightarrow> bool
    \<Rightarrow> (char list \<times> bool) option" where
  "unescape_loop buflen [] score prev out any =
     (if \<not> length out < buflen then Some (out, any)
      else if score = 0 then Some (out, any)
      else if length out + score + 1 \<ge> buflen then None
      else Some (out @ [CHR ''_''] @ (if score = 2 then [prev] else []), any))"
| "unescape_loop buflen (c # cs) score prev out any =
     (if \<not> length out < buflen then None
      else if c = CHR ''_'' then unescape_loop buflen cs 1 c out any
      else if score \<noteq> 0 then
        (if isxdigit c \<and> score = 1 then unescape_loop buflen cs 2 c out any
         else if isxdigit c \<and> unescapable (hexval prev * 16 + hexval c)
           then unescape_loop buflen cs 0 c (out @ [char_of (hexval prev * 16 + hexval c)]) True
         else if length out + score + 1 \<ge> buflen then None
         else unescape_loop buflen cs 0 c
                (out @ [CHR ''_''] @ (if score = 2 then [prev] else []) @ [c]) any)
      else unescape_loop buflen cs 0 c (out @ [c]) any)"

definition str_unescape :: "char list \<Rightarrow> nat \<Rightarrow> char list option" where
  "str_unescape s buflen =
     (case unescape_loop (buflen - 3) s 0 NUL [] False of
        None \<Rightarrow> None
      | Some (out, any) \<Rightarrow> Some (if any then ''{'' @ out @ ''}'' else out))"

subsection \<open>The parser state (the locals of \<^verbatim>\<open>process_json\<close>)\<close>

text \<open>
  What is written to the primary output is kept as the list of the output calls made;
  \<open>render\<close> gives the bytes of each call, so the output file holds
  \<open>concat (map render (out st))\<close>.
\<close>

datatype event =
    Structural "char list"        \<comment> \<open>\<^verbatim>\<open>fprintf(outfp, "%s\n", path)\<close>\<close>
  | Prefix "char list" char       \<comment> \<open>\<^verbatim>\<open>fprintf(outfp, "%s = %c", path, ch)\<close>\<close>
  | Byte char                     \<comment> \<open>\<^verbatim>\<open>putc(ch, outfp)\<close>\<close>
  | Text "char list"              \<comment> \<open>\<^verbatim>\<open>fputs(value, outfp)\<close>\<close>
  | Continuation "char list"      \<comment> \<open>\<^verbatim>\<open>fprintf(outfp, "\"\n%s .= \"", path)\<close>\<close>

fun render :: "event \<Rightarrow> char list" where
  "render (Structural p) = p @ [LF]"
| "render (Prefix p c) = p @ '' = '' @ [c]"
| "render (Byte c) = [c]"
| "render (Text s) = s"
| "render (Continuation p) = [dquote, LF] @ p @ '' .= '' @ [dquote]"

definition rendered :: "event list \<Rightarrow> char list" where
  "rendered es = concat (map render es)"

record pstate =
  name :: "char list"             \<comment> \<open>the first \<^verbatim>\<open>namelen\<close> bytes of \<^verbatim>\<open>name\<close>\<close>
  path :: "char list"
  pathlen :: nat
  in_quotes :: bool
  in_value :: nat
  last_comma :: bool
  protect :: bool
  in_unicode :: nat
  unicode :: int
  idx :: nat
  valueout :: bool
  linenum :: nat
  out :: "event list"             \<comment> \<open>calls made on \<^verbatim>\<open>outfp\<close> / \<^verbatim>\<open>gzout\<close>\<close>
  slicefp :: bool                 \<comment> \<open>\<^verbatim>\<open>slicefp != NULL\<close>\<close>
  slicefile :: "char list option" \<comment> \<open>contents of the slice file, once created\<close>

definition initial :: "config \<Rightarrow> pstate" where
  "initial cfg = \<lparr>name = [], path = [], pathlen = 0, in_quotes = False, in_value = 0,
     last_comma = False, protect = False, in_unicode = 0, unicode = 0,
     idx = ULONG_MAX cfg, valueout = False, linenum = 1, out = [],
     slicefp = False, slicefile = None\<rparr>"

subsection \<open>Path handling\<close>

text \<open>
  \<^verbatim>\<open>find_last_slash\<close>: the scan keeps the position \<open>i\<close> of \<^verbatim>\<open>p\<close>, the flag
  \<^verbatim>\<open>escaped\<close> and the last slash \<open>q\<close> seen outside an escaped component.
\<close>

fun slash_scan :: "bool \<Rightarrow> char list \<Rightarrow> nat \<Rightarrow> bool \<Rightarrow> nat option \<Rightarrow> nat option" where
  "slash_scan unesc [] i escaped q = q"
| "slash_scan unesc (c # cs) i escaped q =
     (if unesc \<and> c = CHR ''{'' then slash_scan unesc cs (Suc i) True q
      else if escaped \<and> c = CHR ''}'' then slash_scan unesc cs (Suc i) False q
      else if c = CHR ''/'' \<and> \<not> escaped then slash_scan unesc cs (Suc i) escaped (Some i)
      else slash_scan unesc cs (Suc i) escaped q)"

definition find_last_slash :: "config \<Rightarrow> char list \<Rightarrow> nat option" where
  "find_last_slash cfg s = slash_scan (unescape cfg) s 0 False None"

text \<open>The component as \<^verbatim>\<open>path_append\<close> writes it.\<close>

definition component :: "config \<Rightarrow> char list \<Rightarrow> char list option" where
  "component cfg s = (if unescape cfg then str_unescape s MAXBUF else Some s)"

definition path_append :: "config \<Rightarrow> char list \<Rightarrow> pstate \<Rightarrow> error + pstate" where
  "path_append cfg s st =
     (case component cfg s of
        None \<Rightarrow> Inl UnescapeOverflow
      | Some r \<Rightarrow>
          if length r = 0 then Inr st
          else if pathlen st + length r + 2 > MAXBUF then Inl TokenTooLong
          else Inr (st\<lparr>path := path st @ ''/'' @ r, pathlen := pathlen st + (length r + 1)\<rparr>))"

text \<open>
  \<^verbatim>\<open>path_remove\<close>; \<open>with_idx\<close> says that the \<^verbatim>\<open>idx\<close> argument is not \<^verbatim>\<open>NULL\<close>.
\<close>

definition index_of_component :: "config \<Rightarrow> char list \<Rightarrow> nat \<Rightarrow> nat" where
  "index_of_component cfg cmp old =
     (if gen_index cfg then
        (if (case cmp of [] \<Rightarrow> False | c # _ \<Rightarrow> isdigit c)
            \<and> fst (strtoul10 cfg cmp) \<noteq> ULONG_MAX cfg \<and> snd (strtoul10 cfg cmp) = []
         then fst (strtoul10 cfg cmp) else ULONG_MAX cfg)
      else if cmp = ''#'' then 1 else old)"

definition path_remove :: "config \<Rightarrow> bool \<Rightarrow> pstate \<Rightarrow> pstate" where
  "path_remove cfg with_idx st =
     (case find_last_slash cfg (path st) of
        None \<Rightarrow> st\<lparr>path := [], pathlen := 0\<rparr>
      | Some k \<Rightarrow>
          (if with_idx then st\<lparr>idx := index_of_component cfg (drop (Suc k) (path st)) (idx st)\<rparr>
           else st)
          \<lparr>path := take k (path st), pathlen := length (take k (path st))\<rparr>)"

text \<open>\<^verbatim>\<open>str_append\<close> on a buffer of \<^verbatim>\<open>MAXBUF\<close> bytes holding \<open>s\<close>.\<close>

definition str_append :: "char \<Rightarrow> char list \<Rightarrow> error + char list" where
  "str_append ch s = (if length s = MAXBUF - 1 then Inl TokenTooLong else Inr (s @ [ch]))"

text \<open>\<^verbatim>\<open>process_json\<close> never looks at what \<^verbatim>\<open>str_append\<close> returns.\<close>

definition ignoring :: "char list \<Rightarrow> error + char list \<Rightarrow> char list" where
  "ignoring old r = (case r of Inl _ \<Rightarrow> old | Inr new \<Rightarrow> new)"

definition name_append :: "char \<Rightarrow> pstate \<Rightarrow> pstate" where
  "name_append ch st = st\<lparr>name := ignoring (name st) (str_append ch (name st))\<rparr>"

subsection \<open>Values and slices (the macros)\<close>

definition is_slice :: "config \<Rightarrow> char list \<Rightarrow> bool" where
  "is_slice cfg s = (s \<in> set (slices cfg))"

definition start_slice :: "config \<Rightarrow> char \<Rightarrow> pstate \<Rightarrow> pstate" where
  "start_slice cfg ch st =
     (if length (slices cfg) > 0 \<and> is_slice cfg (path st)
      then st\<lparr>slicefp := True, slicefile := Some (path st @ '' = '' @ [ch])\<rparr> else st)"

definition stop_slice :: "pstate \<Rightarrow> pstate" where
  "stop_slice st =
     (if slicefp st
      then st\<lparr>slicefile := map_option (\<lambda>f. f @ [LF]) (slicefile st), slicefp := False\<rparr>
      else st)"

definition write_slice :: "char \<Rightarrow> pstate \<Rightarrow> pstate" where
  "write_slice ch st =
     (if slicefp st then st\<lparr>slicefile := map_option (\<lambda>f. f @ [ch]) (slicefile st)\<rparr> else st)"

definition emit :: "event \<Rightarrow> pstate \<Rightarrow> pstate" where
  "emit e st = st\<lparr>out := out st @ [e]\<rparr>"

definition putvalue :: "config \<Rightarrow> char \<Rightarrow> pstate \<Rightarrow> pstate" where
  "putvalue cfg ch st =
     (if valueout st then emit (Byte ch) (write_slice ch st)
      else emit (Prefix (path st) ch) (start_slice cfg ch (st\<lparr>valueout := True\<rparr>)))"

text \<open>The block "end of value" of the cases \<^verbatim>\<open>,\<close> and \<^verbatim>\<open>}\<close>, \<^verbatim>\<open>]\<close>.\<close>

definition end_value :: "pstate \<Rightarrow> pstate" where
  "end_value st =
     (if valueout st then (stop_slice (emit (Byte LF) st))\<lparr>valueout := False\<rparr> else st)"

definition structural :: "config \<Rightarrow> pstate \<Rightarrow> pstate" where
  "structural cfg st =
     (if terminals cfg \<and> pathlen st \<noteq> 0 then emit (Structural (path st)) st else st)"

subsection \<open>The unicode decoder\<close>

text \<open>
  \<^verbatim>\<open>unicode-0xd800u<0x800\<close>: \<^verbatim>\<open>unicode\<close> is a \<^verbatim>\<open>long\<close> and the constant an
  \<^verbatim>\<open>unsigned int\<close>. Where \<^verbatim>\<open>long\<close> has 64 bits the constant is converted to
  \<^verbatim>\<open>long\<close> and the comparison is signed; where it has 32 bits both are converted to
  \<^verbatim>\<open>unsigned long\<close> and the difference wraps.
\<close>

definition surrogate_test :: "config \<Rightarrow> int \<Rightarrow> bool" where
  "surrogate_test cfg u =
     (if lp64 cfg then u - 0xd800 < 0x800 else (u - 0xd800) mod 2 ^ 32 < 0x800)"

text \<open>The bytes handed to \<^verbatim>\<open>str_append\<close>, in order, for a complete escape.\<close>

definition utf8_bytes :: "config \<Rightarrow> int \<Rightarrow> error + char list" where
  "utf8_bytes cfg u =
     (if u < 0x80 then Inr [char_of u]
      else if u < 0x800 then Inr [char_of (192 + u div 64), char_of (128 + u mod 64)]
      else if surrogate_test cfg u then Inl UnicodeError
      else if u < 0x10000 then
        Inr [char_of (224 + u div 4096), char_of (128 + u div 4096 mod 64),
             char_of (128 + u div 64 mod 64), char_of (128 + u mod 64)]
      else if u < 0x110000 then
        Inr [char_of (240 + u div 262144), char_of (128 + u div 4096 mod 64),
             char_of (128 + u div 64 mod 64), char_of (128 + u mod 64)]
      else Inl UnicodeError)"

text \<open>One hexadecimal digit of an escape; \<open>None\<close> is the jump to \<^verbatim>\<open>unicode_error\<close>.\<close>

definition hex_digit :: "char \<Rightarrow> int option" where
  "hex_digit ch =
     (let c = (if 65 \<le> byte ch \<and> byte ch \<le> 70 then byte ch + 32 else byte ch)
      in if 97 \<le> c \<and> c \<le> 102 then Some (int c - 97 + 10)
         else if 48 \<le> c \<and> c \<le> 57 then Some (int c - 48)
         else None)"

text \<open>
  The local buffer \<^verbatim>\<open>char value[4]\<close> receives the bytes of an escape inside a value;
  \<^verbatim>\<open>str_append\<close> writes the byte and a NUL after it, and \<^verbatim>\<open>fputs\<close> prints the string.
\<close>

definition VALUE_SIZE :: nat where
  "VALUE_SIZE = 4"

text \<open>
  After the bytes \<open>bs\<close> have been appended the buffer holds them and the NUL that
  \<^verbatim>\<open>str_append\<close> writes behind the last one; they lie inside \<^verbatim>\<open>value\<close> when
\<close>

definition value_buffer_fits :: "char list \<Rightarrow> bool" where
  "value_buffer_fits bs = (length bs + 1 \<le> VALUE_SIZE)"

definition decode_unicode :: "config \<Rightarrow> pstate \<Rightarrow> error + pstate" where
  "decode_unicode cfg st =
     (case utf8_bytes cfg (unicode st) of
        Inl e \<Rightarrow> Inl e
      | Inr bs \<Rightarrow>
          if in_value st \<noteq> 0
          then Inr (emit (Text (cstr (foldl (\<lambda>v b. ignoring v (str_append b v)) [] bs)))
                      (st\<lparr>in_unicode := 0\<rparr>))
          else Inr ((foldl (\<lambda>s b. name_append b s) st bs)\<lparr>in_unicode := 0\<rparr>))"

subsection \<open>One iteration of the loop of \<^verbatim>\<open>process_json\<close>\<close>

definition comma :: "config \<Rightarrow> pstate \<Rightarrow> error + pstate" where
  "comma cfg st =
     (let st1 = end_value st;
          st2 = (if in_value st1 = 2 then path_remove cfg True st1 else st1);
          r = (if in_value st2 = 1 then Inr (path_remove cfg False st2)
               else if idx st2 < ULONG_MAX cfg then
                 (if gen_index cfg
                  then path_append cfg (decimal (idx st2 + 1)) (st2\<lparr>idx := idx st2 + 1\<rparr>)
                  else path_append cfg ''#'' st2)
               else Inr st2)
      in case r of
           Inl e \<Rightarrow> Inl e
         | Inr st3 \<Rightarrow>
             Inr (st3\<lparr>in_value := (if in_value st3 < 2 then 0 else in_value st3),
                      idx := ULONG_MAX cfg, name := []\<rparr>))"

definition close_container :: "config \<Rightarrow> char \<Rightarrow> pstate \<Rightarrow> pstate" where
  "close_container cfg ch st =
     (let st1 = end_value st;
          st2 = (if in_value st1 \<noteq> 0 then path_remove cfg False st1 else st1);
          st3 = path_remove cfg (ch \<noteq> CHR '']'') st2;
          st4 = (if ch = CHR '']'' then st3\<lparr>idx := ULONG_MAX cfg\<rparr> else st3)
      in st4\<lparr>in_value := 0, name := []\<rparr>)"

definition outside :: "config \<Rightarrow> char \<Rightarrow> pstate \<Rightarrow> error + pstate" where
  "outside cfg ch st =
     (if ch = CHR '' '' \<or> ch = CHR 0x09 \<or> ch = CHR 0x0D then Inr st
      else if ch = LF then Inr (st\<lparr>linenum := (linenum st + 1) mod (ULONG_MAX cfg + 1)\<rparr>)
      else if ch = CHR ''{'' then Inr ((structural cfg st)\<lparr>in_value := 0\<rparr>)
      else if ch = CHR ''['' then
        (if \<not> last_comma st
         then path_append cfg (if gen_index cfg then ''0'' else ''#'')
                ((structural cfg st)\<lparr>in_value := 2\<rparr>)
         else Inr ((structural cfg st)\<lparr>in_value := 2\<rparr>))
      else if ch = CHR '':'' then
        (case path_append cfg (cstr (name st)) (st\<lparr>in_value := 1\<rparr>) of
           Inl e \<Rightarrow> Inl e
         | Inr st1 \<Rightarrow> Inr (st1\<lparr>name := []\<rparr>))
      else if ch = CHR '','' then comma cfg st
      else if ch = CHR ''}'' \<or> ch = CHR '']'' then Inr (close_container cfg ch st)
      else if ch = dquote then
        Inr (if in_value st \<noteq> 0 then putvalue cfg ch (st\<lparr>in_quotes := True\<rparr>)
             else st\<lparr>in_quotes := True\<rparr>)
      else Inr (if in_value st \<noteq> 0 then putvalue cfg ch st else name_append ch st))"

definition inside :: "config \<Rightarrow> char \<Rightarrow> pstate \<Rightarrow> error + pstate" where
  "inside cfg ch st =
     (if \<not> protect st \<and> ch = dquote then
        Inr (if in_value st \<noteq> 0 then putvalue cfg ch (st\<lparr>in_quotes := False\<rparr>)
             else st\<lparr>in_quotes := False\<rparr>)
      else if protect st \<and> ch = CHR ''u'' then
        Inr (st\<lparr>in_unicode := 1, unicode := 0, protect := False\<rparr>)
      else if in_unicode st \<noteq> 0 then
        (case hex_digit ch of
           None \<Rightarrow> Inl UnicodeError
         | Some d \<Rightarrow>
             (let st1 = st\<lparr>unicode := or (push_bit 4 (unicode st)) d\<rparr>
              in if in_unicode st1 = 4 then decode_unicode cfg st1
                 else Inr (st1\<lparr>in_unicode := in_unicode st1 + 1\<rparr>)))
      else if \<not> protect st \<and> ch = backslash then Inr (st\<lparr>protect := True\<rparr>)
      else
        (let ch1 = (if protect st \<and> multiline cfg \<and> ch = CHR ''n'' then LF else ch);
             st1 = (if protect st \<and> \<not> (multiline cfg \<and> ch = CHR ''n'')
                    then (if in_value st \<noteq> 0 then putvalue cfg backslash st
                          else name_append backslash st)
                    else st);
             st2 = st1\<lparr>protect := False\<rparr>
         in Inr (if in_value st2 \<noteq> 0
                 then (if multiprefix cfg \<and> ch1 = LF then emit (Continuation (path st2)) st2
                       else putvalue cfg ch1 st2)
                 else name_append ch1 st2)))"

definition step :: "config \<Rightarrow> pstate \<Rightarrow> char \<Rightarrow> error + pstate" where
  "step cfg st ch =
     (if \<not> in_quotes st
      then (case outside cfg ch st of
              Inl e \<Rightarrow> Inl e
            | Inr st1 \<Rightarrow> Inr (st1\<lparr>last_comma := (ch = CHR '','')\<rparr>))
      else inside cfg ch st)"

subsection \<open>The loop of \<^verbatim>\<open>process_json\<close> and the signal flag\<close>

text \<open>
  The handler \<^verbatim>\<open>sigterm\<close> sets \<^verbatim>\<open>terminate\<close> and nothing clears it, so all that the
  program sees of a signal is which of its reads of the flag is the first to see it set.
  A \<open>signal\<close> \<open>Some n\<close> says that the next \<open>n\<close> reads of \<^verbatim>\<open>terminate\<close> still give 0
  and every later one gives 1; \<open>None\<close> says that no signal arrives.
\<close>

type_synonym signal = "nat option"

definition raised :: "signal \<Rightarrow> bool" where
  "raised sg = (sg = Some 0)"

definition tick :: "signal \<Rightarrow> signal" where
  "tick sg = map_option (\<lambda>n. n - 1) sg"

text \<open>
  \<^verbatim>\<open>while (!terminate && (ch=gzgetc(gzin))!=-1)\<close> over the bytes the input stream yields
  before \<^verbatim>\<open>-1\<close>. A \<^verbatim>\<open>return 1\<close> inside the body leaves with the error and the state
  reached before the failing byte.
\<close>

fun loop :: "config \<Rightarrow> signal \<Rightarrow> pstate \<Rightarrow> char list \<Rightarrow> error option \<times> pstate \<times> signal" where
  "loop cfg sg st [] = (None, st, if raised sg then sg else tick sg)"
| "loop cfg sg st (c # cs) =
     (if raised sg then (None, st, sg)
      else case step cfg st c of
             Inl e \<Rightarrow> (Some e, st, tick sg)
           | Inr st1 \<Rightarrow> loop cfg (tick sg) st1 cs)"

text \<open>The loop when no signal arrives, and the bytes of the output file it leads to.\<close>

definition run :: "config \<Rightarrow> pstate \<Rightarrow> char list \<Rightarrow> error + pstate" where
  "run cfg st bs = (case loop cfg None st bs of
                      (Some e, _, _) \<Rightarrow> Inl e
                    | (None, st1, _) \<Rightarrow> Inr st1)"

definition convert :: "config \<Rightarrow> char list \<Rightarrow> error + char list" where
  "convert cfg doc = (case run cfg (initial cfg) doc of
                        Inl e \<Rightarrow> Inl e | Inr st \<Rightarrow> Inr (rendered (out st)))"

subsection \<open>\<^verbatim>\<open>process_json\<close> and the loop of \<^verbatim>\<open>main\<close>\<close>

text \<open>
  The part of \<^verbatim>\<open>process_json\<close> before the loop (opening the input, deriving the name
  of the output file, the test for a newer output file, opening the output) depends on
  the file system only; a document comes with its outcome: \<open>Failed\<close> for any of the
  \<^verbatim>\<open>return 1\<close>, \<open>Newer\<close> for the \<^verbatim>\<open>return 0\<close> of an output file that is newer, and
  \<open>Ready\<close> with the names \<^verbatim>\<open>outfile\<close> and \<^verbatim>\<open>slicefile\<close>. It also says whether
  closing the input and the output stream succeeds.
\<close>

datatype prepared = Failed | Newer | Ready

record document =
  prep :: prepared
  outfile :: string
  slicename :: string
  input :: "char list"
  close_in_ok :: bool
  close_out_ok :: bool

record world =
  files :: "string \<Rightarrow> char list option"
  stdout :: "char list"

text \<open>What the streams of a document hold after the loop has left the state \<open>st\<close>.\<close>

definition written :: "config \<Rightarrow> document \<Rightarrow> pstate \<Rightarrow> world \<Rightarrow> world" where
  "written cfg d st w =
     (let w1 = (if to_stdout cfg then w\<lparr>stdout := stdout w @ rendered (out st)\<rparr>
                else w\<lparr>files := (files w)(outfile d \<mapsto> rendered (out st))\<rparr>)
      in case slicefile st of
           None \<Rightarrow> w1
         | Some f \<Rightarrow> w1\<lparr>files := (files w1)(slicename d \<mapsto> f)\<rparr>)"

definition process_json :: "config \<Rightarrow> signal \<Rightarrow> world \<Rightarrow> document \<Rightarrow> nat \<times> world \<times> signal" where
  "process_json cfg sg w d =
     (case prep d of
        Failed \<Rightarrow> (1, w, sg)
      | Newer \<Rightarrow> (0, w, sg)
      | Ready \<Rightarrow>
          (case loop cfg sg (initial cfg) (input d) of
             (Some e, st, sg1) \<Rightarrow> (1, written cfg d st w, sg1)
           | (None, st, sg1) \<Rightarrow>
               if \<not> close_in_ok d then (1, written cfg d st w, sg1)
               else if \<not> close_out_ok d then (1, written cfg d st w, sg1)
               else if raised sg1 \<and> \<not> to_stdout cfg
                 then (0, (written cfg d st w)\<lparr>files := (files (written cfg d st w))(outfile d := None)\<rparr>, sg1)
               else (0, written cfg d st w, tick sg1)))"

text \<open>
  \<^verbatim>\<open>for (; !terminate && optind<argc; optind++) if (process_json(argv[optind])) return 1;\<close>
  The read of the flag that ends the loop after the last document changes nothing and
  is left out.
\<close>

fun main_loop :: "config \<Rightarrow> signal \<Rightarrow> world \<Rightarrow> document list \<Rightarrow> nat \<times> world \<times> signal" where
  "main_loop cfg sg w [] = (0, w, sg)"
| "main_loop cfg sg w (d # ds) =
     (if raised sg then (0, w, sg)
      else case process_json cfg (tick sg) w d of
             (rc, w1, sg1) \<Rightarrow> if rc \<noteq> 0 then (1, w1, sg1) else main_loop cfg sg1 w1 ds)"

subsection \<open>Notions used to state the properties\<close>

text \<open>
  A document whose set-up and closing succeed, with the names that the default suffixes
  give, and a file system without files.
\<close>

definition ready_document :: "string \<Rightarrow> char list \<Rightarrow> document" where
  "ready_document f bs = \<lparr>prep = Ready, outfile = f @ ''.txt'', slicename = f @ ''.slice'',
     input = bs, close_in_ok = True, close_out_ok = True\<rparr>"

definition empty_world :: world where
  "empty_world = \<lparr>files = (\<lambda>f. None), stdout = []\<rparr>"

text \<open>
  The flag \<^verbatim>\<open>escaped\<close> of \<^verbatim>\<open>find_last_slash\<close> after a scan of \<open>s\<close> that starts with the
  flag \<open>e\<close>, and whether that scan meets no slash outside an escaped component.
\<close>

fun escaped_after :: "bool \<Rightarrow> bool \<Rightarrow> char list \<Rightarrow> bool" where
  "escaped_after unesc e [] = e"
| "escaped_after unesc e (c # cs) =
     escaped_after unesc
       (if unesc \<and> c = CHR ''{'' then True else if e \<and> c = CHR ''}'' then False else e) cs"

fun boundary_free :: "bool \<Rightarrow> bool \<Rightarrow> char list \<Rightarrow> bool" where
  "boundary_free unesc e [] = True"
| "boundary_free unesc e (c # cs) =
     (if unesc \<and> c = CHR ''{'' then boundary_free unesc True cs
      else if e \<and> c = CHR ''}'' then boundary_free unesc False cs
      else if c = CHR ''/'' \<and> \<not> e then False
      else boundary_free unesc e cs)"

text \<open>
  A string that the scan of \<^verbatim>\<open>find_last_slash\<close>, started outside an escaped component,
  passes without meeting a boundary and leaves outside an escaped component.
\<close>

definition whole_component :: "config \<Rightarrow> char list \<Rightarrow> bool" where
  "whole_component cfg s =
     (boundary_free (unescape cfg) False s \<and> \<not> escaped_after (unescape cfg) False s)"

text \<open>
  The UTF-8 encoding of a code point below \<open>0x110000\<close> in the words of the
  specification ("standard packing": one byte below \<open>0x80\<close>, two below \<open>0x800\<close>, three
  below \<open>0x10000\<close>, four otherwise), to compare the decoder with.
\<close>

definition utf8_spec :: "int \<Rightarrow> char list" where
  "utf8_spec u =
     (if u < 0x80 then [char_of u]
      else if u < 0x800 then [char_of (0xC0 + u div 64), char_of (0x80 + u mod 64)]
      else if u < 0x10000 then
        [char_of (0xE0 + u div 4096), char_of (0x80 + u div 64 mod 64), char_of (0x80 + u mod 64)]
      else [char_of (0xF0 + u div 262144), char_of (0x80 + u div 4096 mod 64),
            char_of (0x80 + u div 64 mod 64), char_of (0x80 + u mod 64)])"

text \<open>The value records of an output are its calls \<^verbatim>\<open>fprintf(outfp, "%s = %c", path, ch)\<close>.\<close>

fun is_record :: "event \<Rightarrow> bool" where
  "is_record (Prefix p c) = True"
| "is_record e = False"

definition value_records :: "event list \<Rightarrow> nat" where
  "value_records es = length (filter is_record es)"

subsection \<open>Documents\<close>

text \<open>
  The documents of the grammar (RFC 7159) as trees, to count their leaf scalars. A string
  is a list of items: a byte, a backslash escape, or a unicode escape with its four
  digits. A literal stands for a number, \<open>true\<close>, \<open>false\<close> or \<open>null\<close>.
\<close>

datatype sitem = Plain char | Escaped char | Unicode char char char char

datatype json =
    Literal "char list"
  | String "sitem list"
  | Array "json list"
  | Object "(sitem list \<times> json) list"

datatype token = Punct char | Lit "char list" | Quoted "sitem list"

fun item_text :: "sitem \<Rightarrow> char list" where
  "item_text (Plain c) = [c]"
| "item_text (Escaped c) = [backslash, c]"
| "item_text (Unicode a b c d) = [backslash, CHR ''u'', a, b, c, d]"

fun text_of :: "token \<Rightarrow> char list" where
  "text_of (Punct c) = [c]"
| "text_of (Lit s) = s"
| "text_of (Quoted items) = dquote # concat (map item_text items) @ [dquote]"

fun separated :: "token list list \<Rightarrow> token list" where
  "separated [] = []"
| "separated [x] = x"
| "separated (x # y # zs) = x @ Punct (CHR '','') # separated (y # zs)"

fun tokens :: "json \<Rightarrow> token list" where
  "tokens (Literal s) = [Lit s]"
| "tokens (String items) = [Quoted items]"
| "tokens (Array es) = Punct (CHR ''['') # separated (map tokens es) @ [Punct (CHR '']'')]"
| "tokens (Object ms) =
     Punct (CHR ''{'')
       # separated (map (\<lambda>m. Quoted (fst m) # Punct (CHR '':'') # tokens (snd m)) ms)
       @ [Punct (CHR ''}'')]"

fun leaves :: "json \<Rightarrow> nat" where
  "leaves (Literal s) = 1"
| "leaves (String items) = 1"
| "leaves (Array es) = sum_list (map leaves es)"
| "leaves (Object ms) = sum_list (map (\<lambda>m. leaves (snd m)) ms)"

text \<open>
  White space may stand before and after every token: \<open>spaced ts s\<close> says that \<open>s\<close> is
  the text of the tokens \<open>ts\<close> in this order with white space put anywhere between them.
\<close>

definition white :: "char \<Rightarrow> bool" where
  "white c = (c = CHR '' '' \<or> c = CHR 0x09 \<or> c = CHR 0x0D \<or> c = LF)"

fun spaced :: "token list \<Rightarrow> char list \<Rightarrow> bool" where
  "spaced [] s = list_all white s"
| "spaced (t # ts) s =
     (prefix (text_of t) (dropWhile white s)
      \<and> spaced ts (drop (length (text_of t)) (dropWhile white s)))"

text \<open>
  What the tokens have to be made of. The conditions are weaker than those of the
  grammar: a literal is any non-empty run of bytes other than white space, punctuation
  and the quote; in a string a plain byte is any byte but quote and backslash, an escape
  is a backslash and any byte but \<open>u\<close>, and the digits of a unicode escape are
  hexadecimal.
\<close>

definition literal_ok :: "char list \<Rightarrow> bool" where
  "literal_ok s = (s \<noteq> [] \<and> (\<forall>c \<in> set s. \<not> white c \<and> c \<notin> set ''{}[]:,'' \<and> c \<noteq> dquote))"

fun item_ok :: "sitem \<Rightarrow> bool" where
  "item_ok (Plain c) = (c \<noteq> dquote \<and> c \<noteq> backslash)"
| "item_ok (Escaped c) = (c \<noteq> CHR ''u'')"
| "item_ok (Unicode a b c d) = (isxdigit a \<and> isxdigit b \<and> isxdigit c \<and> isxdigit d)"

fun is_container :: "json \<Rightarrow> bool" where
  "is_container (Array es) = True"
| "is_container (Object ms) = True"
| "is_container v = False"

text \<open>No scalar element of an array comes after an element that is an array or object.\<close>

fun scalars_first :: "json list \<Rightarrow> bool" where
  "scalars_first [] = True"
| "scalars_first (e # es) = (if is_container e then list_all is_container es else scalars_first es)"

fun supported :: "json \<Rightarrow> bool" where
  "supported (Literal s) = literal_ok s"
| "supported (String items) = list_all item_ok items"
| "supported (Array es) = ((\<forall>e \<in> set es. supported e) \<and> scalars_first es)"
| "supported (Object ms) = (\<forall>m \<in> set ms. list_all item_ok (fst m) \<and> supported (snd m))"

text \<open>The state between two tokens, and the part of it that decides how many records a
  text adds.\<close>

definition ready :: "pstate \<Rightarrow> bool" where
  "ready st = (\<not> in_quotes st \<and> \<not> protect st \<and> in_unicode st = 0)"

definition mode :: "pstate \<Rightarrow> bool \<times> bool \<times> nat \<times> nat \<times> bool \<times> nat" where
  "mode st = (in_quotes st, protect st, in_unicode st, in_value st, valueout st,
              value_records (out st))"

text \<open>
  A conversion that ends in the state \<open>fin\<close> can go on from a state with the property
  \<open>P\<close> and a text of the tokens \<open>ts\<close>.
\<close>

definition continues :: "config \<Rightarrow> pstate \<Rightarrow> token list \<Rightarrow> (pstate \<Rightarrow> bool) \<Rightarrow> bool" where
  "continues cfg fin ts P = (\<exists>st1 s1. spaced ts s1 \<and> run cfg st1 s1 = Inr fin \<and> P st1)"

text \<open>
  The mode after the value \<open>v\<close> has been read from the state \<open>st\<close>: a scalar leaves its
  record open, a container leaves no value context, and the records have grown by the
  leaves of \<open>v\<close>.
\<close>

definition after_value :: "json \<Rightarrow> pstate \<Rightarrow> pstate \<Rightarrow> bool" where
  "after_value v st st1 =
     (mode st1 = (False, False, 0, if is_container v then 0 else in_value st,
                  \<not> is_container v, value_records (out st) + leaves v))"

section \<open>Properties\<close>

subsection \<open>Running the loop\<close>

lemma run_Nil [simp]: "run cfg st [] = Inr st"
  by (simp add: run_def raised_def tick_def)

lemma run_Cons [simp]:
  "run cfg st (c # cs) = (case step cfg st c of Inl e \<Rightarrow> Inl e | Inr st1 \<Rightarrow> run cfg st1 cs)"
  by (simp add: run_def raised_def tick_def split: sum.split)

lemma run_append:
  "run cfg st (xs @ ys) = (case run cfg st xs of Inl e \<Rightarrow> Inl e | Inr st1 \<Rightarrow> run cfg st1 ys)"
  by (induction xs arbitrary: st) (simp_all split: sum.split)

lemma decimal_small: "n < 10 \<Longrightarrow> decimal n = [char_of (48 + n)]"
  by (simp add: decimal.simps)

lemma decimal_big: "\<not> n < 10 \<Longrightarrow> decimal n = decimal (n div 10) @ [char_of (48 + n mod 10)]"
  by (subst decimal.simps) simp

lemmas eval = step_def outside_def inside_def comma_def close_container_def
  end_value_def structural_def putvalue_def emit_def start_slice_def stop_slice_def write_slice_def
  is_slice_def name_append_def ignoring_def str_append_def path_append_def path_remove_def
  component_def index_of_component_def find_last_slash_def decode_unicode_def utf8_bytes_def
  hex_digit_def surrogate_test_def cstr_def MAXBUF_def ULONG_MAX_def byte_def isdigit_def
  strtoul10_def digits_value_def initial_def defaults_def rendered_def convert_def
  decimal_small decimal_big char_of_def bit_Suc_0_iff

text \<open>Bytes of a key: inside quotes and outside a value a plain byte goes to \<^verbatim>\<open>name\<close>.\<close>

lemma protect_idle: "\<not> protect st \<Longrightarrow> st\<lparr>protect := False\<rparr> = st"
  by (cases st) simp

lemma step_key_byte:
  assumes "in_quotes st" "\<not> protect st" "in_unicode st = 0" "in_value st = 0"
    and "c \<noteq> dquote" "c \<noteq> backslash"
  shows "step cfg st c = Inr (name_append c st)"
  using assms by (simp add: step_def inside_def protect_idle)

lemma run_key_bytes:
  assumes "in_quotes st" "\<not> protect st" "in_unicode st = 0" "in_value st = 0"
    and "c \<noteq> dquote" "c \<noteq> backslash" "length (name st) + n < MAXBUF"
  shows "run cfg st (replicate n c @ rest) = run cfg (st\<lparr>name := name st @ replicate n c\<rparr>) rest"
  using assms
proof (induction n arbitrary: st)
  case 0
  then show ?case by simp
next
  case (Suc n)
  let ?st1 = "st\<lparr>name := name st @ [c]\<rparr>"
  have s: "step cfg st c = Inr ?st1"
    using Suc.prems by (simp add: step_key_byte name_append_def str_append_def ignoring_def)
  have "run cfg ?st1 (replicate n c @ rest)
        = run cfg (?st1\<lparr>name := name ?st1 @ replicate n c\<rparr>) rest"
    using Suc.prems by (intro Suc.IH) simp_all
  with s show ?case by (simp add: replicate_app_Cons_same)
qed

lemma path_append_cases:
  assumes "component cfg s = Some r" "r \<noteq> []" "pathlen st = length (path st)"
  shows "path_append cfg s st =
     (if length (path st @ ''/'' @ r) < MAXBUF
      then Inr (st\<lparr>path := path st @ ''/'' @ r, pathlen := length (path st @ ''/'' @ r)\<rparr>)
      else Inl TokenTooLong)"
  using assms by (auto simp: path_append_def MAXBUF_def)

text \<open>
  C5 (as amended). \<^verbatim>\<open>path_append\<close> keeps one byte of the buffer for the terminating NUL:
  appending a non-empty component succeeds exactly when the rendered path, slash-joined
  with a leading slash, has fewer than \<open>MAXBUF = 4096\<close> bytes, that is at most 4095; from
  4096 bytes on it fails with \<open>TokenTooLong\<close>, and where the component is the key that a
  colon ends, \<^verbatim>\<open>process_json\<close> returns that failure whatever bytes follow.
\<close>

theorem path_append_boundary:
  assumes "component cfg s = Some r" and "r \<noteq> []" and "pathlen st = length (path st)"
  shows "path_append cfg s st =
           (if length (path st @ ''/'' @ r) < MAXBUF
            then Inr (st\<lparr>path := path st @ ''/'' @ r, pathlen := length (path st @ ''/'' @ r)\<rparr>)
            else Inl TokenTooLong)
       \<and> (MAXBUF \<le> length (path st @ ''/'' @ r) \<and> \<not> in_quotes st \<and> cstr (name st) = s
            \<longrightarrow> run cfg st (CHR '':'' # rest) = Inl TokenTooLong)"
proof
  show "path_append cfg s st =
           (if length (path st @ ''/'' @ r) < MAXBUF
            then Inr (st\<lparr>path := path st @ ''/'' @ r, pathlen := length (path st @ ''/'' @ r)\<rparr>)
            else Inl TokenTooLong)"
    using assms by (rule path_append_cases)
next
  show "MAXBUF \<le> length (path st @ ''/'' @ r) \<and> \<not> in_quotes st \<and> cstr (name st) = s
            \<longrightarrow> run cfg st (CHR '':'' # rest) = Inl TokenTooLong"
  proof
    assume a: "MAXBUF \<le> length (path st @ ''/'' @ r) \<and> \<not> in_quotes st \<and> cstr (name st) = s"
    have "path_append cfg s (st\<lparr>in_value := 1\<rparr>) = Inl TokenTooLong"
      using assms a by (subst path_append_cases [where r = r]) simp_all
    with a show "run cfg st (CHR '':'' # rest) = Inl TokenTooLong"
      by (simp add: step_def outside_def)
  qed
qed

lemma cstr_replicate: "c \<noteq> NUL \<Longrightarrow> cstr (replicate n c) = replicate n c"
  by (simp add: cstr_def)

theorem path_append_boundary_witness:
  "path_append defaults (replicate 4094 (CHR ''a'')) (initial defaults)
     = Inr ((initial defaults)\<lparr>path := ''/'' @ replicate 4094 (CHR ''a''), pathlen := 4095\<rparr>)
   \<and> run defaults ((initial defaults)\<lparr>name := replicate 4095 (CHR ''a'')\<rparr>) (CHR '':'' # ''1}'')
     = Inl TokenTooLong"
proof
  show "path_append defaults (replicate 4094 (CHR ''a'')) (initial defaults)
     = Inr ((initial defaults)\<lparr>path := ''/'' @ replicate 4094 (CHR ''a''), pathlen := 4095\<rparr>)"
    using path_append_boundary [of defaults "replicate 4094 (CHR ''a'')" "replicate 4094 (CHR ''a'')"
        "initial defaults" "[]"]
    by (simp add: component_def defaults_def initial_def MAXBUF_def)
next
  show "run defaults ((initial defaults)\<lparr>name := replicate 4095 (CHR ''a'')\<rparr>) (CHR '':'' # ''1}'')
     = Inl TokenTooLong"
    using path_append_boundary [of defaults "replicate 4095 (CHR ''a'')" "replicate 4095 (CHR ''a'')"
        "(initial defaults)\<lparr>name := replicate 4095 (CHR ''a'')\<rparr>" "''1}''"]
    by (simp add: component_def defaults_def initial_def MAXBUF_def cstr_replicate)
qed

text \<open>
  C5 as stated fails: the key of 4095 bytes \<open>a\<close> gives the rendered path \<open>/aaa...\<close> of
  exactly 4096 bytes, and the append is refused.
\<close>

theorem path_exactly_maxbuf_refused:
  "length (''/'' @ replicate 4095 (CHR ''a'')) = MAXBUF
   \<and> path_append defaults (replicate 4095 (CHR ''a'')) (initial defaults) = Inl TokenTooLong
   \<and> convert defaults (''{'' @ [dquote] @ replicate 4095 (CHR ''a'') @ [dquote] @ '':1}'')
       = Inl TokenTooLong"
proof -
  let ?st = "\<lparr>name = [], path = [], pathlen = 0, in_quotes = True, in_value = 0,
     last_comma = False, protect = False, in_unicode = 0, unicode = 0,
     idx = ULONG_MAX defaults, valueout = False, linenum = 1, out = [],
     slicefp = False, slicefile = None\<rparr>"
  have 1: "run defaults (initial defaults) (''{'' @ [dquote] @ replicate 4095 (CHR ''a'') @ [dquote] @ '':1}'')
      = run defaults ?st (replicate 4095 (CHR ''a'') @ [dquote] @ '':1}'')"
    by (simp add: eval)
  have 2: "run defaults ?st (replicate 4095 (CHR ''a'') @ [dquote] @ '':1}'')
      = run defaults (?st\<lparr>name := name ?st @ replicate 4095 (CHR ''a'')\<rparr>) ([dquote] @ '':1}'')"
    by (rule run_key_bytes) (simp_all add: MAXBUF_def)
  have 3: "run defaults (?st\<lparr>name := name ?st @ replicate 4095 (CHR ''a'')\<rparr>) ([dquote] @ '':1}'')
      = Inl TokenTooLong"
    by (simp add: step_def inside_def outside_def path_append_def component_def defaults_def
        cstr_replicate MAXBUF_def)
  show ?thesis
    using 1 2 3 by (simp add: convert_def path_append_def component_def defaults_def MAXBUF_def)
qed

subsection \<open>Appending and removing a path component\<close>

lemma slash_scan_append:
  "slash_scan u (xs @ ys) i e q
     = slash_scan u ys (i + length xs) (escaped_after u e xs) (slash_scan u xs i e q)"
  by (induction xs arbitrary: i e q) auto

lemma slash_scan_boundary_free: "boundary_free u e ys \<Longrightarrow> slash_scan u ys i e q = q"
  by (induction ys arbitrary: i e) (auto split: if_splits)

lemma escaped_after_off [simp]: "escaped_after False False s = False"
  by (induction s) simp_all

lemma boundary_free_plain:
  "CHR ''/'' \<notin> set r \<Longrightarrow> CHR ''{'' \<notin> set r \<Longrightarrow> boundary_free u False r"
  by (induction r) auto

lemma boundary_free_inside: "CHR ''}'' \<notin> set body \<Longrightarrow> boundary_free u True (body @ ''}'')"
  by (induction body) auto

lemma boundary_free_wrapped:
  "CHR ''}'' \<notin> set body \<Longrightarrow> boundary_free True False (''{'' @ body @ ''}'')"
  using boundary_free_inside [of body True] by simp

lemma find_last_slash_appended:
  assumes "\<not> escaped_after (unescape cfg) False p" and "boundary_free (unescape cfg) False r"
  shows "find_last_slash cfg (p @ CHR ''/'' # r) = Some (length p)"
proof -
  have "find_last_slash cfg (p @ CHR ''/'' # r)
      = slash_scan (unescape cfg) (CHR ''/'' # r) (length p) False
          (slash_scan (unescape cfg) p 0 False None)"
    using assms(1) by (simp add: find_last_slash_def slash_scan_append)
  also have "\<dots> = slash_scan (unescape cfg) r (Suc (length p)) False (Some (length p))"
    by simp
  also have "\<dots> = Some (length p)"
    using assms(2) by (rule slash_scan_boundary_free)
  finally show ?thesis .
qed

text \<open>
  C9 (as amended). Let \<open>r\<close> be the non-empty component as \<^verbatim>\<open>path_append\<close> writes it (the
  key itself, or with \<^verbatim>\<open>-e\<close> what \<^verbatim>\<open>str_unescape\<close> returns). If the scan of
  \<^verbatim>\<open>find_last_slash\<close> over the path \<open>p\<close> ends outside a \<open>{...}\<close> span and meets in \<open>r\<close> no
  slash outside such a span, then \<^verbatim>\<open>path_remove\<close> right after the append gives back \<open>p\<close>
  and its length. A span opens at \<open>{\<close> and ends at the first \<open>}\<close>.
\<close>

theorem append_remove_roundtrip:
  assumes "path_append cfg c st = Inr st'"
    and "component cfg c = Some r" and "r \<noteq> []"
    and "pathlen st = length (path st)"
    and "\<not> escaped_after (unescape cfg) False (path st)"
    and "boundary_free (unescape cfg) False r"
  shows "path (path_remove cfg w st') = path st \<and> pathlen (path_remove cfg w st') = pathlen st"
proof -
  have st': "st' = st\<lparr>path := path st @ ''/'' @ r, pathlen := pathlen st + (length r + 1)\<rparr>"
    using assms(1-3) by (simp add: path_append_def split: if_splits)
  have "find_last_slash cfg (path st') = Some (length (path st))"
    using assms(5,6) by (simp add: st' find_last_slash_appended)
  then show ?thesis
    using assms(4) by (simp add: path_remove_def st')
qed

lemmas unescape_eval = str_unescape_def component_def isxdigit_def isdigit_def byte_def
  hexval_def unescapable_def MAXBUF_def char_of_def bit_Suc_0_iff

theorem append_remove_roundtrip_witness:
  "path (path_remove (defaults\<lparr>unescape := True\<rparr>) False
      ((initial defaults)\<lparr>path := ''/x/{a/b}'', pathlen := 8\<rparr>)) = ''/x''
   \<and> pathlen (path_remove (defaults\<lparr>unescape := True\<rparr>) False
      ((initial defaults)\<lparr>path := ''/x/{a/b}'', pathlen := 8\<rparr>)) = 2"
proof -
  have c: "component (defaults\<lparr>unescape := True\<rparr>) ''a_2fb'' = Some ''{a/b}''"
    by (simp add: unescape_eval)
  have a: "path_append (defaults\<lparr>unescape := True\<rparr>) ''a_2fb''
             ((initial defaults)\<lparr>path := ''/x'', pathlen := 2\<rparr>)
           = Inr ((initial defaults)\<lparr>path := ''/x/{a/b}'', pathlen := 8\<rparr>)"
    by (simp add: path_append_def c MAXBUF_def)
  show ?thesis
    using append_remove_roundtrip [OF a c, of False] by (simp add: defaults_def)
qed

text \<open>
  C9 as stated fails. With \<^verbatim>\<open>-e\<close> the key \<open>x_7dy_2fz\<close> is accepted and written as
  \<open>{x}y/z}\<close>; the span ends at the decoded \<open>}\<close>, so the removal cuts the component at its
  own slash and leaves \<open>/{x}y\<close> instead of the empty path.
\<close>

theorem unescaped_component_split:
  "path_append (defaults\<lparr>unescape := True\<rparr>) ''x_7dy_2fz'' (initial defaults)
     = Inr ((initial defaults)\<lparr>path := ''/{x}y/z}'', pathlen := 8\<rparr>)
   \<and> path (path_remove (defaults\<lparr>unescape := True\<rparr>) False
        ((initial defaults)\<lparr>path := ''/{x}y/z}'', pathlen := 8\<rparr>)) = ''/{x}y''"
  by (simp add: path_append_def path_remove_def find_last_slash_def unescape_eval
      initial_def defaults_def)

subsection \<open>Index numbers\<close>

lemma byte_char_of: "n < 256 \<Longrightarrow> byte (char_of n) = n"
  by (simp add: byte_def)

lemma isdigit_decimal: "list_all isdigit (decimal n)"
proof (induction n rule: decimal.induct)
  case (1 n)
  show ?case
  proof (cases "n < 10")
    case True
    then show ?thesis by (simp add: decimal_small isdigit_def byte_char_of)
  next
    case False
    have "n mod 10 < 10" by simp
    then have "isdigit (char_of (48 + n mod 10))"
      by (simp add: isdigit_def byte_char_of)
    with False 1 show ?thesis by (simp add: decimal_big)
  qed
qed

lemma decimal_no_underscore: "CHR ''_'' \<notin> set (decimal n)"
proof
  assume "CHR ''_'' \<in> set (decimal n)"
  with isdigit_decimal [of n] have "isdigit (CHR ''_'')"
    by (simp add: list_all_iff)
  then show False by (simp add: isdigit_def byte_def)
qed

lemma decimal_no_slash: "CHR ''/'' \<notin> set (decimal n)"
proof
  assume "CHR ''/'' \<in> set (decimal n)"
  with isdigit_decimal [of n] have "isdigit (CHR ''/'')"
    by (simp add: list_all_iff)
  then show False by (simp add: isdigit_def byte_def)
qed

lemma decimal_not_Nil: "decimal n \<noteq> []"
  by (subst decimal.simps) simp

lemma length_decimal: "n < 10 ^ k \<Longrightarrow> 0 < k \<Longrightarrow> length (decimal n) \<le> k"
proof (induction k arbitrary: n)
  case 0
  then show ?case by simp
next
  case (Suc k)
  show ?case
  proof (cases "n < 10")
    case True
    then show ?thesis by (simp add: decimal_small)
  next
    case False
    with Suc.prems have k: "0 < k" by (cases k) simp_all
    from Suc.prems have "n div 10 < 10 ^ k" by (simp add: less_mult_imp_div_less mult.commute)
    then have "length (decimal (n div 10)) \<le> k" using k by (rule Suc.IH)
    with False show ?thesis by (simp add: decimal_big)
  qed
qed

lemma unescape_loop_plain:
  "CHR ''_'' \<notin> set s \<Longrightarrow> length acc + length s \<le> buflen
     \<Longrightarrow> unescape_loop buflen s 0 prev acc any = Some (acc @ s, any)"
  by (induction s arbitrary: prev acc) auto

lemma component_plain:
  assumes "CHR ''_'' \<notin> set s" and "length s \<le> 4093"
  shows "component cfg s = Some s"
  using assms unescape_loop_plain [of s "[]" 4093 NUL False]
  by (simp add: component_def str_unescape_def MAXBUF_def)

lemma ULONG_MAX_bound: "ULONG_MAX cfg < 10 ^ 20"
  by (simp add: ULONG_MAX_def)

lemma component_decimal: "n \<le> ULONG_MAX cfg \<Longrightarrow> component cfg (decimal n) = Some (decimal n)"
proof -
  assume "n \<le> ULONG_MAX cfg"
  with ULONG_MAX_bound [of cfg] have "n < 10 ^ 20" by simp
  then have "length (decimal n) \<le> 20" by (rule length_decimal) simp
  then show ?thesis by (intro component_plain decimal_no_underscore) simp
qed

lemma strtoul10_digits:
  "list_all isdigit s \<Longrightarrow> strtoul10 cfg s = (min (digits_value s) (ULONG_MAX cfg), [])"
proof -
  assume "list_all isdigit s"
  then have tw: "takeWhile isdigit s = s" and dw: "dropWhile isdigit s = []"
    by (simp_all add: list_all_iff)
  show ?thesis unfolding strtoul10_def tw dw ..
qed

lemma index_of_digits:
  assumes "gen_index cfg" "s \<noteq> []" "list_all isdigit s" "digits_value s < ULONG_MAX cfg"
  shows "index_of_component cfg s old = digits_value s"
proof -
  have "strtoul10 cfg s = (min (digits_value s) (ULONG_MAX cfg), [])"
    using assms(3) by (rule strtoul10_digits)
  moreover obtain c cs where "s = c # cs" and "isdigit c"
    using assms(2,3) by (cases s) simp_all
  ultimately show ?thesis
    using assms(1,4) by (simp add: index_of_component_def)
qed

lemma end_value_fields [simp]:
  "path (end_value st) = path st" "pathlen (end_value st) = pathlen st"
  "in_value (end_value st) = in_value st" "idx (end_value st) = idx st"
  "valueout (end_value st) = False" "in_quotes (end_value st) = in_quotes st"
  by (simp_all add: end_value_def stop_slice_def emit_def)

lemma escaped_after_append:
  "escaped_after u e (xs @ ys) = escaped_after u (escaped_after u e xs) ys"
  by (induction xs arbitrary: e) simp_all

lemma path_remove_component:
  assumes "path st = pre @ CHR ''/'' # cmp"
    and "\<not> escaped_after (unescape cfg) False pre"
    and "boundary_free (unescape cfg) False cmp"
  shows "path_remove cfg w st =
           (if w then st\<lparr>idx := index_of_component cfg cmp (idx st)\<rparr> else st)
             \<lparr>path := pre, pathlen := length pre\<rparr>"
  using assms by (simp add: path_remove_def find_last_slash_appended)

lemma close_container_pops:
  assumes "path st = pre @ ''/'' @ cmp @ pend"
    and "\<not> escaped_after (unescape cfg) False pre"
    and "whole_component cfg cmp"
    and "if in_value st = 0 then pend = []
         else \<exists>leaf. pend = ''/'' @ leaf \<and> boundary_free (unescape cfg) False leaf"
  shows "path (close_container cfg ch st) = pre"
    and "pathlen (close_container cfg ch st) = length pre"
    and "idx (close_container cfg ch st) =
           (if ch = CHR '']'' then ULONG_MAX cfg else index_of_component cfg cmp (idx st))"
    and "in_value (close_container cfg ch st) = 0"
    and "valueout (close_container cfg ch st) = False"
    and "in_quotes (close_container cfg ch st) = in_quotes st"
proof -
  define st2 where "st2 = (if in_value (end_value st) \<noteq> 0
                           then path_remove cfg False (end_value st) else end_value st)"
  have cc: "close_container cfg ch st =
      (let st3 = path_remove cfg (ch \<noteq> CHR '']'') st2;
           st4 = (if ch = CHR '']'' then st3\<lparr>idx := ULONG_MAX cfg\<rparr> else st3)
       in st4\<lparr>in_value := 0, name := []\<rparr>)"
    by (simp add: close_container_def st2_def Let_def)
  have bf: "boundary_free (unescape cfg) False cmp"
    and ea: "\<not> escaped_after (unescape cfg) False cmp"
    using assms(3) by (simp_all add: whole_component_def)
  have st2: "path st2 = pre @ CHR ''/'' # cmp \<and> idx st2 = idx st \<and> valueout st2 = False
      \<and> in_quotes st2 = in_quotes st"
  proof (cases "in_value st = 0")
    case True
    with assms(1,4) show ?thesis by (simp add: st2_def)
  next
    case False
    with assms(4) obtain leaf where l: "pend = ''/'' @ leaf"
      "boundary_free (unescape cfg) False leaf" by auto
    have p: "path (end_value st) = (pre @ CHR ''/'' # cmp) @ CHR ''/'' # leaf"
      using assms(1) l by simp
    have e: "\<not> escaped_after (unescape cfg) False (pre @ CHR ''/'' # cmp)"
      using assms(2) ea by (simp add: escaped_after_append)
    show ?thesis
      using False by (simp add: st2_def path_remove_component [OF p e l(2)])
  qed
  then have rm: "path_remove cfg (ch \<noteq> CHR '']'') st2 =
      (if ch \<noteq> CHR '']'' then st2\<lparr>idx := index_of_component cfg cmp (idx st2)\<rparr> else st2)
        \<lparr>path := pre, pathlen := length pre\<rparr>"
    using assms(2) bf by (intro path_remove_component) simp_all
  show "path (close_container cfg ch st) = pre"
    and "pathlen (close_container cfg ch st) = length pre"
    and "idx (close_container cfg ch st) =
           (if ch = CHR '']'' then ULONG_MAX cfg else index_of_component cfg cmp (idx st))"
    and "in_value (close_container cfg ch st) = 0"
    and "valueout (close_container cfg ch st) = False"
    and "in_quotes (close_container cfg ch st) = in_quotes st"
    using st2 by (simp_all add: cc rm Let_def)
qed

lemma step_close:
  "\<not> in_quotes st \<Longrightarrow> ch = CHR ''}'' \<or> ch = CHR '']''
     \<Longrightarrow> step cfg st ch = Inr ((close_container cfg ch st)\<lparr>last_comma := False\<rparr>)"
  by (auto simp: step_def outside_def)

lemma step_comma:
  "\<not> in_quotes st \<Longrightarrow> step cfg st (CHR '','') =
     (case comma cfg st of Inl e \<Rightarrow> Inl e | Inr st1 \<Rightarrow> Inr (st1\<lparr>last_comma := True\<rparr>))"
  by (simp add: step_def outside_def split: sum.split)

lemma end_value_idle: "\<not> valueout st \<Longrightarrow> end_value st = st"
  by (simp add: end_value_def)

lemma comma_resumes:
  assumes "in_value st = 0" "\<not> valueout st" "idx st < ULONG_MAX cfg"
    and "pathlen st = length (path st)"
    and "length (path st @ ''/'' @ (if gen_index cfg then decimal (Suc (idx st)) else ''#'')) < MAXBUF"
  shows "\<exists>st1. comma cfg st = Inr st1
           \<and> path st1 = path st @ ''/'' @ (if gen_index cfg then decimal (Suc (idx st)) else ''#'')"
proof (cases "gen_index cfg")
  case True
  have c: "component cfg (decimal (Suc (idx st))) = Some (decimal (Suc (idx st)))"
    using assms(3) by (intro component_decimal) simp
  have "path_append cfg (decimal (Suc (idx st))) (st\<lparr>idx := Suc (idx st)\<rparr>)
      = Inr (st\<lparr>idx := Suc (idx st), path := path st @ ''/'' @ decimal (Suc (idx st)),
              pathlen := length (path st @ ''/'' @ decimal (Suc (idx st)))\<rparr>)"
    using assms(4,5) True by (subst path_append_cases [OF c decimal_not_Nil]) simp_all
  then show ?thesis
    using assms True by (simp add: comma_def end_value_idle)
next
  case False
  have c: "component cfg ''#'' = Some ''#''"
    by (rule component_plain) simp_all
  have "path_append cfg ''#'' st
      = Inr (st\<lparr>path := path st @ ''/#'', pathlen := length (path st @ ''/#'')\<rparr>)"
    using assms(4,5) False by (subst path_append_cases [OF c]) simp_all
  then show ?thesis
    using assms False by (simp add: comma_def end_value_idle)
qed

text \<open>
  C3 (as amended). Outside quotes, let the path end in the component \<open>cmp\<close> of the
  container, followed by the component \<open>pend\<close> of a pending value exactly when
  \<^verbatim>\<open>in_value\<close> is set. Consuming \<open>}\<close> pops both and leaves the path \<open>pre\<close>. With list
  index numbers, when \<open>cmp\<close> is a string of decimal digits whose value \<open>n\<close> is below the
  sentinel \<^verbatim>\<open>ULONG_MAX\<close>, the index counter becomes \<open>n\<close> and a following comma appends
  \<open>n + 1\<close>; without them, when \<open>cmp\<close> is \<open>#\<close>, the counter becomes 1 and a following comma
  appends \<open>#\<close>. Consuming \<open>]\<close> instead leaves the counter at \<^verbatim>\<open>ULONG_MAX\<close>, and a
  following comma appends nothing.
\<close>

theorem close_object_restores_index:
  assumes "\<not> in_quotes st"
    and "path st = pre @ ''/'' @ cmp @ pend"
    and "\<not> escaped_after (unescape cfg) False pre"
    and "whole_component cfg cmp"
    and "if in_value st = 0 then pend = []
         else \<exists>leaf. pend = ''/'' @ leaf \<and> boundary_free (unescape cfg) False leaf"
    and "if gen_index cfg
         then cmp \<noteq> [] \<and> list_all isdigit cmp \<and> digits_value cmp < ULONG_MAX cfg
              \<and> n = digits_value cmp \<and> nxt = decimal (Suc n)
         else cmp = ''#'' \<and> n = 1 \<and> nxt = ''#''"
    and "length (pre @ ''/'' @ nxt) < MAXBUF"
  shows "\<exists>st1 st2 st3 st4.
           step cfg st (CHR ''}'') = Inr st1 \<and> path st1 = pre \<and> idx st1 = n
         \<and> step cfg st1 (CHR '','') = Inr st2 \<and> path st2 = pre @ ''/'' @ nxt
         \<and> step cfg st (CHR '']'') = Inr st3 \<and> path st3 = pre \<and> idx st3 = ULONG_MAX cfg
         \<and> step cfg st3 (CHR '','') = Inr st4 \<and> path st4 = pre"
proof -
  note pops = close_container_pops [OF assms(2-5)]
  let ?st1 = "(close_container cfg (CHR ''}'') st)\<lparr>last_comma := False\<rparr>"
  let ?st3 = "(close_container cfg (CHR '']'') st)\<lparr>last_comma := False\<rparr>"
  have s1: "step cfg st (CHR ''}'') = Inr ?st1" and s3: "step cfg st (CHR '']'') = Inr ?st3"
    using assms(1) by (simp_all add: step_close)
  have n: "index_of_component cfg cmp (idx st) = n"
  proof (cases "gen_index cfg")
    case True
    with assms(6) show ?thesis by (simp add: index_of_digits)
  next
    case False
    with assms(6) show ?thesis by (simp add: index_of_component_def)
  qed
  have i1: "idx ?st1 = n" and p1: "path ?st1 = pre"
    using pops [of "CHR ''}''"] n by simp_all
  have lt: "n < ULONG_MAX cfg"
    using assms(6) by (cases "gen_index cfg") (simp_all add: ULONG_MAX_def)
  have nxt: "nxt = (if gen_index cfg then decimal (Suc (idx ?st1)) else ''#'')"
    using assms(6) i1 by (cases "gen_index cfg") simp_all
  have "\<exists>s. comma cfg ?st1 = Inr s
          \<and> path s = path ?st1 @ ''/'' @ (if gen_index cfg then decimal (Suc (idx ?st1)) else ''#'')"
  proof (rule comma_resumes)
    show "in_value ?st1 = 0" "\<not> valueout ?st1" "pathlen ?st1 = length (path ?st1)"
      using pops [of "CHR ''}''"] by simp_all
    show "idx ?st1 < ULONG_MAX cfg" using i1 lt by simp
    show "length (path ?st1 @ ''/'' @ (if gen_index cfg then decimal (Suc (idx ?st1)) else ''#''))
            < MAXBUF"
      using assms(7) p1 nxt by simp
  qed
  then obtain s where s: "comma cfg ?st1 = Inr s" "path s = pre @ ''/'' @ nxt"
    using p1 nxt by auto
  have q1: "\<not> in_quotes ?st1" and q3: "\<not> in_quotes ?st3"
    using pops(6) assms(1) by simp_all
  have s2: "step cfg ?st1 (CHR '','') = Inr (s\<lparr>last_comma := True\<rparr>)"
    using q1 s(1) by (simp add: step_comma)
  have c3: "comma cfg ?st3 = Inr (?st3\<lparr>in_value := 0, idx := ULONG_MAX cfg, name := []\<rparr>)"
    using pops [of "CHR '']''"] by (simp add: comma_def end_value_idle)
  have s4: "step cfg ?st3 (CHR '','')
      = Inr (?st3\<lparr>in_value := 0, idx := ULONG_MAX cfg, name := [], last_comma := True\<rparr>)"
    using q3 c3 by (simp add: step_comma)
  show ?thesis
    using s1 p1 i1 s2 s(2) s3 s4 pops(1,3) [of "CHR '']''"] by simp
qed

theorem close_object_restores_index_witness:
  "\<exists>st1 st2 st3 st4.
      step defaults ((initial defaults)\<lparr>path := ''/a/7/k'', pathlen := 6, in_value := 1\<rparr>) (CHR ''}'')
        = Inr st1 \<and> path st1 = ''/a'' \<and> idx st1 = 7
    \<and> step defaults st1 (CHR '','') = Inr st2 \<and> path st2 = ''/a/8''
    \<and> step defaults ((initial defaults)\<lparr>path := ''/a/7/k'', pathlen := 6, in_value := 1\<rparr>) (CHR '']'')
        = Inr st3 \<and> path st3 = ''/a'' \<and> idx st3 = ULONG_MAX defaults
    \<and> step defaults st3 (CHR '','') = Inr st4 \<and> path st4 = ''/a''"
  using close_object_restores_index [of "(initial defaults)\<lparr>path := ''/a/7/k'', pathlen := 6, in_value := 1\<rparr>"
      "''/a''" "''7''" "''/k''" defaults 7 "''8''"]
  by (simp add: initial_def defaults_def whole_component_def isdigit_def byte_def digits_value_def
      ULONG_MAX_def MAXBUF_def decimal_small char_of_def bit_Suc_0_iff)

text \<open>
  C3 as stated fails for a digit string that does not fit: the component
  \<open>99999999999999999999\<close> is popped by \<open>}\<close>, but \<^verbatim>\<open>strtoul\<close> gives \<^verbatim>\<open>ULONG_MAX\<close> for
  it, which \<^verbatim>\<open>path_remove\<close> takes for "not a number". The counter is left at the
  sentinel and the next member is not put under an index, as it is after the key \<open>7\<close>.
\<close>

theorem oversized_index_not_restored:
  \<open>list_all isdigit ''99999999999999999999''
   \<and> digits_value ''99999999999999999999'' = 99999999999999999999
   \<and> map_sum id (\<lambda>s. (path s, idx s))
        (run defaults (initial defaults) ''{"99999999999999999999":{}'')
       = Inr ([], ULONG_MAX defaults)
   \<and> convert defaults ''{"99999999999999999999":{},"b":2}''
       = Inr (''/99999999999999999999'' @ [LF] @ ''/b = 2'' @ [LF])
   \<and> convert defaults ''{"7":{},"b":2}'' = Inr (''/7'' @ [LF] @ ''/8/b = 2'' @ [LF])\<close>
  by (simp add: eval)

subsection \<open>The unicode decoder\<close>

lemma utf8_bytes_below_0x800:
  "0 \<le> u \<Longrightarrow> u < 0x800 \<Longrightarrow> utf8_bytes cfg u = Inr (utf8_spec u)"
  by (simp add: utf8_bytes_def utf8_spec_def)

lemma surrogates_rejected:
  "0xD800 \<le> u \<Longrightarrow> u \<le> 0xDFFF \<Longrightarrow> utf8_bytes cfg u = Inl UnicodeError"
  by (simp add: utf8_bytes_def surrogate_test_def)

lemma non_hex_rejected:
  assumes "in_quotes st" "in_unicode st \<noteq> 0" "\<not> isxdigit ch" "ch \<noteq> dquote"
    "\<not> (protect st \<and> ch = CHR ''u'')"
  shows "step cfg st ch = Inl UnicodeError"
proof -
  have "hex_digit ch = None"
    using assms(3) by (auto simp: hex_digit_def isxdigit_def isdigit_def Let_def)
  with assms show ?thesis by (auto simp: step_def inside_def)
qed

text \<open>
  C4, where the code departs from it. The branch for code units from \<open>0x800\<close> to
  \<open>0xFFFF\<close> calls \<^verbatim>\<open>str_append\<close> four times: between the lead byte and the two
  continuation bytes it appends \<^verbatim>\<open>128+unicode/4096%64\<close>, the second byte of the
  four-byte form. For the escape of \<open>FFFF\<close> the value receives \<open>EF 8F BF BF\<close> where UTF-8 is
  \<open>EF BF BF\<close>, whatever the width of \<^verbatim>\<open>long\<close>. Where \<^verbatim>\<open>long\<close> has 64 bits the test
  \<^verbatim>\<open>unicode-0xd800u<0x800\<close> is signed, and a code unit from \<open>0x800\<close> to \<open>0xD7FF\<close> such
  as \<open>20AC\<close> is rejected as a unicode error as well.
\<close>

theorem three_byte_branch_emits_four_bytes:
  \<open>utf8_bytes cfg 0xFFFF = Inr [CHR 0xEF, CHR 0x8F, CHR 0xBF, CHR 0xBF]
   \<and> utf8_spec 0xFFFF = [CHR 0xEF, CHR 0xBF, CHR 0xBF]
   \<and> convert defaults (''{"a":"'' @ [backslash] @ ''uffff"}'')
       = Inr (''/a = '' @ [dquote, CHR 0xEF, CHR 0x8F, CHR 0xBF, CHR 0xBF, dquote, LF])
   \<and> convert (defaults\<lparr>lp64 := False\<rparr>) (''{"a":"'' @ [backslash] @ ''u20ac"}'')
       = Inr (''/a = '' @ [dquote, CHR 0xE2, CHR 0x82, CHR 0x82, CHR 0xAC, dquote, LF])
   \<and> utf8_spec 0x20AC = [CHR 0xE2, CHR 0x82, CHR 0xAC]
   \<and> convert defaults (''{"a":"'' @ [backslash] @ ''u20ac"}'') = Inl UnicodeError\<close>
proof -
  have 1: "utf8_bytes cfg 0xFFFF = Inr [CHR 0xEF, CHR 0x8F, CHR 0xBF, CHR 0xBF]"
    by (simp add: utf8_bytes_def surrogate_test_def char_of_def)
  have 2: "utf8_spec 0xFFFF = [CHR 0xEF, CHR 0xBF, CHR 0xBF]"
    "utf8_spec 0x20AC = [CHR 0xE2, CHR 0x82, CHR 0xAC]"
    by (simp_all add: utf8_spec_def char_of_def)
  have 3: \<open>convert defaults (''{"a":"'' @ [backslash] @ ''uffff"}'')
       = Inr (''/a = '' @ [dquote, CHR 0xEF, CHR 0x8F, CHR 0xBF, CHR 0xBF, dquote, LF])\<close>
    by (simp add: eval)
  have 4: \<open>convert (defaults\<lparr>lp64 := False\<rparr>) (''{"a":"'' @ [backslash] @ ''u20ac"}'')
       = Inr (''/a = '' @ [dquote, CHR 0xE2, CHR 0x82, CHR 0x82, CHR 0xAC, dquote, LF])\<close>
    by (simp add: eval)
  have 5: \<open>convert defaults (''{"a":"'' @ [backslash] @ ''u20ac"}'') = Inl UnicodeError\<close>
    by (simp add: eval)
  from 1 2 3 4 5 show ?thesis by blast
qed

text \<open>
  C10, where the code departs from it. Four hexadecimal digits do keep the code unit
  below \<open>0x10000\<close>, but for the escape of \<open>FFFF\<close> inside a value the decoder appends four bytes to
  the local buffer \<^verbatim>\<open>char value[4]\<close>, not three at most: the NUL that \<^verbatim>\<open>str_append\<close>
  writes behind the fourth byte is \<^verbatim>\<open>value[4]\<close>, one past the end of the buffer.
\<close>

theorem value_buffer_overrun:
  \<open>map_sum id (\<lambda>s. (in_value s \<noteq> 0, in_unicode s, or (push_bit 4 (unicode s)) 15))
       (run defaults (initial defaults) (''{"a":"'' @ [backslash] @ ''ufff'')) = Inr (True, 4, 0xFFFF)
   \<and> map_sum id length (utf8_bytes cfg 0xFFFF) = Inr 4
   \<and> \<not> value_buffer_fits [CHR 0xEF, CHR 0x8F, CHR 0xBF, CHR 0xBF]
   \<and> map_sum id (\<lambda>s. last (out s))
       (run defaults (initial defaults) (''{"a":"'' @ [backslash] @ ''uffff''))
       = Inr (Text [CHR 0xEF, CHR 0x8F, CHR 0xBF, CHR 0xBF])\<close>
proof -
  have 1: \<open>map_sum id (\<lambda>s. (in_value s \<noteq> 0, in_unicode s, or (push_bit 4 (unicode s)) 15))
       (run defaults (initial defaults) (''{"a":"'' @ [backslash] @ ''ufff'')) = Inr (True, 4, 0xFFFF)\<close>
    by (simp add: eval)
  have 2: "map_sum id length (utf8_bytes cfg 0xFFFF) = Inr 4"
    by (simp add: utf8_bytes_def surrogate_test_def)
  have 3: "\<not> value_buffer_fits [CHR 0xEF, CHR 0x8F, CHR 0xBF, CHR 0xBF]"
    by (simp add: value_buffer_fits_def VALUE_SIZE_def)
  have 4: \<open>map_sum id (\<lambda>s. last (out s))
       (run defaults (initial defaults) (''{"a":"'' @ [backslash] @ ''uffff''))
       = Inr (Text [CHR 0xEF, CHR 0x8F, CHR 0xBF, CHR 0xBF])\<close>
    by (simp add: eval)
  from 1 2 3 4 show ?thesis by blast
qed

subsection \<open>Slices\<close>

text \<open>
  C7, where the code departs from it. The bytes of a unicode escape inside a value are
  written with \<^verbatim>\<open>fputs(value, outfp)\<close> and not through \<^verbatim>\<open>putvalue\<close>, so they never
  reach the slice file. With the slice \<open>/a/b\<close> the document below gives the primary
  record \<open>/a/b = "A"\<close> and the slice file \<open>/a/b = ""\<close>; the same value written without
  the escape is copied in full.
\<close>

theorem slice_misses_unicode_escape:
  \<open>map_sum id (\<lambda>s. (rendered (out s), slicefile s))
      (run (defaults\<lparr>slices := [''/a/b'']\<rparr>) (initial (defaults\<lparr>slices := [''/a/b'']\<rparr>))
         (''{"a":{"b":"'' @ [backslash] @ ''u0041"}}''))
     = Inr (''/a'' @ [LF] @ ''/a/b = "A"'' @ [LF], Some (''/a/b = ""'' @ [LF]))
   \<and> map_sum id (\<lambda>s. (rendered (out s), slicefile s))
      (run (defaults\<lparr>slices := [''/a/b'']\<rparr>) (initial (defaults\<lparr>slices := [''/a/b'']\<rparr>))
         ''{"a":{"b":"A"}}'')
     = Inr (''/a'' @ [LF] @ ''/a/b = "A"'' @ [LF], Some (''/a/b = "A"'' @ [LF]))\<close>
  by (simp add: eval Let_def)

subsection \<open>The token limit\<close>

lemma last_comma_idle: "\<not> last_comma st \<Longrightarrow> st\<lparr>last_comma := False\<rparr> = st"
  by (cases st) simp

lemma step_value_byte:
  assumes "\<not> in_quotes st" "in_value st \<noteq> 0" "valueout st" "\<not> slicefp st" "\<not> last_comma st"
    and "c \<notin> set '' {[:,}]'' \<union> {CHR 0x09, CHR 0x0D, LF, dquote}"
  shows "step cfg st c = Inr (st\<lparr>out := out st @ [Byte c]\<rparr>)"
proof -
  have "outside cfg c st = Inr (st\<lparr>out := out st @ [Byte c]\<rparr>)"
    using assms by (simp add: outside_def putvalue_def write_slice_def emit_def)
  then show ?thesis
    using assms(1,5,6) by (simp add: step_def last_comma_idle)
qed

lemma run_value_bytes:
  assumes "\<not> in_quotes st" "in_value st \<noteq> 0" "valueout st" "\<not> slicefp st" "\<not> last_comma st"
    and "c \<notin> set '' {[:,}]'' \<union> {CHR 0x09, CHR 0x0D, LF, dquote}"
  shows "run cfg st (replicate n c @ rest)
           = run cfg (st\<lparr>out := out st @ replicate n (Byte c)\<rparr>) rest"
  using assms(1-5)
proof (induction n arbitrary: st)
  case 0
  then show ?case by simp
next
  case (Suc n)
  let ?st1 = "st\<lparr>out := out st @ [Byte c]\<rparr>"
  have s: "step cfg st c = Inr ?st1"
    using Suc.prems assms(6) by (rule step_value_byte)
  have "run cfg ?st1 (replicate n c @ rest)
        = run cfg (?st1\<lparr>out := out ?st1 @ replicate n (Byte c)\<rparr>) rest"
    using Suc.prems by (intro Suc.IH) simp_all
  with s show ?case by (simp add: replicate_app_Cons_same)
qed

lemma rendered_append: "rendered (xs @ ys) = rendered xs @ rendered ys"
  by (simp add: rendered_def)

lemma rendered_bytes: "rendered (replicate n (Byte c)) = replicate n c"
  by (induction n) (simp_all add: rendered_def)

lemma long_value_streams:
  \<open>convert defaults (''{"k":1'' @ replicate n (CHR ''1'') @ ''}'')
     = Inr (''/k = 1'' @ replicate n (CHR ''1'') @ [LF])\<close>
proof -
  let ?st = "\<lparr>name = [], path = ''/k'', pathlen = 2, in_quotes = False, in_value = 1,
     last_comma = False, protect = False, in_unicode = 0, unicode = 0,
     idx = ULONG_MAX defaults, valueout = True, linenum = 1, out = [Prefix ''/k'' (CHR ''1'')],
     slicefp = False, slicefile = None\<rparr>"
  have 0: \<open>run defaults (initial defaults) ''{"k":1'' = Inr ?st\<close>
    by (simp add: eval)
  have 1: \<open>run defaults (initial defaults) (''{"k":1'' @ replicate n (CHR ''1'') @ ''}'')
      = run defaults ?st (replicate n (CHR ''1'') @ ''}'')\<close>
    by (subst run_append) (simp only: 0 sum.case)
  have 2: "run defaults ?st (replicate n (CHR ''1'') @ ''}'')
      = run defaults (?st\<lparr>out := out ?st @ replicate n (Byte (CHR ''1''))\<rparr>) ''}''"
    by (rule run_value_bytes) simp_all
  have 3: "run defaults (?st\<lparr>out := out ?st @ replicate n (Byte (CHR ''1''))\<rparr>) ''}''
      = Inr (?st\<lparr>out := out ?st @ replicate n (Byte (CHR ''1'')) @ [Byte LF], valueout := False,
               path := [], pathlen := 0, in_value := 0\<rparr>)"
    by (simp add: step_def outside_def close_container_def end_value_def emit_def stop_slice_def
        path_remove_def find_last_slash_def index_of_component_def defaults_def isdigit_def
        byte_def ULONG_MAX_def)
  show ?thesis
    unfolding convert_def 1 2 3 by (simp add: rendered_append rendered_bytes rendered_def)
qed

lemma structural_fields [simp]:
  "path (structural cfg st) = path st" "pathlen (structural cfg st) = pathlen st"
  by (simp_all add: structural_def emit_def)

text \<open>
  C6 (as amended). The limit is one on the path: when the component that a colon or an
  opening bracket appends would take the rendered path to \<open>MAXBUF = 4096\<close> bytes or
  more, \<^verbatim>\<open>process_json\<close> returns the error at that byte, whatever bytes follow. A value
  is not accumulated but written byte by byte, and is converted whatever its length.
\<close>

theorem path_limit_is_fatal:
  assumes "run cfg st0 pre = Inr st" and "\<not> in_quotes st"
    and "(c = CHR '':'' \<and> s = cstr (name st))
         \<or> (c = CHR ''['' \<and> \<not> last_comma st \<and> s = (if gen_index cfg then ''0'' else ''#''))"
    and "component cfg s = Some r" and "r \<noteq> []"
    and "pathlen st = length (path st)"
    and "MAXBUF \<le> length (path st @ ''/'' @ r)"
  shows \<open>run cfg st0 (pre @ c # rest) = Inl TokenTooLong
       \<and> convert defaults (''{"k":1'' @ replicate n (CHR ''1'') @ ''}'')
           = Inr (''/k = 1'' @ replicate n (CHR ''1'') @ [LF])\<close>
proof
  have pa: "\<And>st1. path st1 = path st \<Longrightarrow> pathlen st1 = pathlen st
            \<Longrightarrow> path_append cfg s st1 = Inl TokenTooLong"
    using assms(4-7) by (subst path_append_cases [where r = r]) simp_all
  have "step cfg st c = Inl TokenTooLong"
    using assms(3)
  proof
    assume "c = CHR '':'' \<and> s = cstr (name st)"
    with assms(2) pa [of "st\<lparr>in_value := 1\<rparr>"] show ?thesis
      by (simp add: step_def outside_def)
  next
    assume a: "c = CHR ''['' \<and> \<not> last_comma st \<and> s = (if gen_index cfg then ''0'' else ''#'')"
    have "path_append cfg s ((structural cfg st)\<lparr>in_value := 2\<rparr>) = Inl TokenTooLong"
      by (rule pa) simp_all
    with assms(2) a show ?thesis
      by (simp add: step_def outside_def)
  qed
  with assms(1) show "run cfg st0 (pre @ c # rest) = Inl TokenTooLong"
    by (simp add: run_append)
next
  show \<open>convert defaults (''{"k":1'' @ replicate n (CHR ''1'') @ ''}'')
           = Inr (''/k = 1'' @ replicate n (CHR ''1'') @ [LF])\<close>
    by (rule long_value_streams)
qed

theorem path_limit_is_fatal_witness:
  \<open>run defaults ((initial defaults)\<lparr>name := replicate 4095 (CHR ''a'')\<rparr>) ([] @ CHR '':'' # ''1}'')
      = Inl TokenTooLong
   \<and> convert defaults (''{"k":1'' @ replicate 4999 (CHR ''1'') @ ''}'')
       = Inr (''/k = 1'' @ replicate 4999 (CHR ''1'') @ [LF])\<close>
  using path_limit_is_fatal [of defaults "(initial defaults)\<lparr>name := replicate 4095 (CHR ''a'')\<rparr>" "[]"
      "(initial defaults)\<lparr>name := replicate 4095 (CHR ''a'')\<rparr>" "CHR '':''"
      "replicate 4095 (CHR ''a'')" "replicate 4095 (CHR ''a'')" "''1}''" 4999]
  by (simp add: component_def defaults_def initial_def MAXBUF_def cstr_replicate)

text \<open>
  C6 as stated fails for values: a value of 5000 bytes exceeds the limit of 4096 bytes, and
  the document is converted to the end.
\<close>

theorem long_value_not_fatal:
  \<open>MAXBUF < length (''1'' @ replicate 4999 (CHR ''1''))
   \<and> convert defaults (''{"k":1'' @ replicate 4999 (CHR ''1'') @ ''}'')
       = Inr (''/k = 1'' @ replicate 4999 (CHR ''1'') @ [LF])\<close>
  using long_value_streams [of 4999] by (simp add: MAXBUF_def)

subsection \<open>The driver\<close>

lemma tick_None [simp]: "tick None = None" "\<not> raised None"
  by (simp_all add: tick_def raised_def)

lemma tick_Suc [simp]: "tick (Some (Suc k)) = Some k" "\<not> raised (Some (Suc k))" "raised (Some 0)"
  "tick (Some 0) = Some 0"
  by (simp_all add: tick_def raised_def)

lemma loop_None_signal: "snd (snd (loop cfg None st bs)) = None"
  by (induction bs arbitrary: st) (simp_all split: sum.split)

lemma loop_None_error:
  "fst (loop cfg None st bs) = (case run cfg st bs of Inl e \<Rightarrow> Some e | Inr _ \<Rightarrow> None)"
  by (induction bs arbitrary: st) (simp_all add: run_def split: sum.split prod.split option.split)

lemma loop_cancelled:
  "k \<le> length bs \<Longrightarrow> run cfg st (take k bs) = Inr st1
     \<Longrightarrow> loop cfg (Some k) st bs = (None, st1, Some 0)"
proof (induction k arbitrary: st bs)
  case 0
  then show ?case by (cases bs) simp_all
next
  case (Suc k)
  then obtain c cs where bs: "bs = c # cs" by (cases bs) simp_all
  with Suc.prems obtain st2 where s: "step cfg st c = Inr st2" "run cfg st2 (take k cs) = Inr st1"
    by (auto split: sum.splits)
  from Suc.prems bs have "k \<le> length cs" by simp
  then have "loop cfg (Some k) st2 cs = (None, st1, Some 0)"
    using s(2) by (rule Suc.IH)
  with bs s(1) show ?case by simp
qed

lemma main_loop_append:
  "main_loop cfg sg w pre = (0, w1, sg1) \<Longrightarrow> \<not> raised sg1
     \<Longrightarrow> main_loop cfg sg w (pre @ ds) = main_loop cfg sg1 w1 ds"
proof (induction pre arbitrary: sg w)
  case Nil
  then show ?case by simp
next
  case (Cons d pre)
  show ?case
  proof (cases "raised sg")
    case True
    with Cons.prems show ?thesis by simp
  next
    case False
    obtain rc w2 sg2 where p: "process_json cfg (tick sg) w d = (rc, w2, sg2)"
      by (cases "process_json cfg (tick sg) w d") auto
    with Cons.prems False have rc: "rc = 0" and m: "main_loop cfg sg2 w2 pre = (0, w1, sg1)"
      by (auto split: if_splits)
    from m Cons.prems(2) have "main_loop cfg sg2 w2 (pre @ ds) = main_loop cfg sg1 w1 ds"
      by (rule Cons.IH)
    with False p rc show ?thesis by simp
  qed
qed

text \<open>
  C1 (as amended). The driver does not go on after a failure: when the documents before
  \<open>d\<close> have been processed and \<^verbatim>\<open>process_json\<close> returns non-zero for \<open>d\<close>, \<^verbatim>\<open>main\<close>
  returns 1 at once with the files as \<open>d\<close> left them, whatever documents follow. A
  document that is read to a fatal error of the parser, or whose streams do not close,
  is such a document.
\<close>

theorem driver_stops_at_first_failure:
  assumes "main_loop cfg sg w pre = (0, w1, sg1)" and "\<not> raised sg1"
    and "process_json cfg (tick sg1) w1 d = (rc, w2, sg2)" and "rc \<noteq> 0"
  shows "main_loop cfg sg w (pre @ d # post) = (1, w2, sg2)
       \<and> (prep d' = Ready
            \<and> (run cfg (initial cfg) (input d') = Inl e \<or> \<not> close_in_ok d' \<or> \<not> close_out_ok d')
          \<longrightarrow> fst (process_json cfg None w' d') = 1)"
proof
  have "main_loop cfg sg w (pre @ d # post) = main_loop cfg sg1 w1 (d # post)"
    using assms(1,2) by (rule main_loop_append)
  with assms(2-4) show "main_loop cfg sg w (pre @ d # post) = (1, w2, sg2)"
    by simp
next
  show "prep d' = Ready
            \<and> (run cfg (initial cfg) (input d') = Inl e \<or> \<not> close_in_ok d' \<or> \<not> close_out_ok d')
          \<longrightarrow> fst (process_json cfg None w' d') = 1"
  proof
    assume a: "prep d' = Ready
            \<and> (run cfg (initial cfg) (input d') = Inl e \<or> \<not> close_in_ok d' \<or> \<not> close_out_ok d')"
    obtain r st3 sg3 where l: "loop cfg None (initial cfg) (input d') = (r, st3, sg3)"
      by (cases "loop cfg None (initial cfg) (input d')") auto
    show "fst (process_json cfg None w' d') = 1"
    proof (cases r)
      case (Some e')
      with a l show ?thesis by (simp add: process_json_def)
    next
      case None
      with l have "run cfg (initial cfg) (input d') = Inr st3"
        by (simp add: run_def)
      with a None l loop_None_signal [of cfg "initial cfg" "input d'"] show ?thesis
        by (auto simp: process_json_def)
    qed
  qed
qed

lemmas driver_eval = process_json_def written_def ready_document_def empty_world_def
  raised_def tick_def

theorem driver_stops_at_first_failure_witness:
  \<open>main_loop defaults None empty_world
      ([ready_document ''one'' ''{"a":1}''] @
        ready_document ''two'' (''{"b":"'' @ [backslash] @ ''ud800"}'') #
       [ready_document ''three'' ''{"c":3}''])
     = (1, \<lparr>files = (\<lambda>f. None)(''one.txt'' \<mapsto> ''/a = 1'' @ [LF], ''two.txt'' \<mapsto> ''/b = "''),
             stdout = []\<rparr>, None)
   \<and> fst (process_json defaults None empty_world
         (ready_document ''two'' (''{"b":"'' @ [backslash] @ ''ud800"}''))) = 1\<close>
proof -
  have 1: \<open>main_loop defaults None empty_world [ready_document ''one'' ''{"a":1}'']
      = (0, \<lparr>files = (\<lambda>f. None)(''one.txt'' \<mapsto> ''/a = 1'' @ [LF]), stdout = []\<rparr>, None)\<close>
    by (simp add: driver_eval eval)
  have 2: \<open>process_json defaults (tick None)
        \<lparr>files = (\<lambda>f. None)(''one.txt'' \<mapsto> ''/a = 1'' @ [LF]), stdout = []\<rparr>
        (ready_document ''two'' (''{"b":"'' @ [backslash] @ ''ud800"}''))
      = (1, \<lparr>files = (\<lambda>f. None)(''one.txt'' \<mapsto> ''/a = 1'' @ [LF], ''two.txt'' \<mapsto> ''/b = "''),
             stdout = []\<rparr>, None)\<close>
    by (simp add: driver_eval eval)
  have 3: \<open>run defaults (initial defaults)
        (input (ready_document ''two'' (''{"b":"'' @ [backslash] @ ''ud800"}''))) = Inl UnicodeError\<close>
    by (simp add: ready_document_def eval)
  show ?thesis
    using driver_stops_at_first_failure [OF 1 _ 2, of \<open>[ready_document ''three'' ''{"c":3}'']\<close>
        \<open>ready_document ''two'' (''{"b":"'' @ [backslash] @ ''ud800"}'')\<close> UnicodeError empty_world] 3
    by (simp add: ready_document_def)
qed

text \<open>
  C1 as stated fails: after the unicode error in the second document the third one is not
  converted, although on its own it is.
\<close>

theorem later_documents_not_converted:
  \<open>(case main_loop defaults None empty_world
           [ready_document ''one'' ''{"a":1}'',
            ready_document ''two'' (''{"b":"'' @ [backslash] @ ''ud800"}''),
            ready_document ''three'' ''{"c":3}'']
     of (rc, w, sg) \<Rightarrow> (rc, files w ''one.txt'', files w ''three.txt''))
     = (1, Some (''/a = 1'' @ [LF]), None)
   \<and> (case main_loop defaults None empty_world [ready_document ''three'' ''{"c":3}'']
     of (rc, w, sg) \<Rightarrow> (rc, files w ''three.txt''))
     = (0, Some (''/c = 3'' @ [LF]))\<close>
  by (simp add: driver_eval eval)

text \<open>
  C8. The flag is read before each byte and before each document. Let the documents
  \<open>pre\<close> be processed while the flag still reads 0, and let the signal arrive so that
  after the read that starts \<open>d\<close> exactly \<open>k\<close> more reads see 0, with \<open>k\<close> at most the
  number of bytes of \<open>d\<close>: then exactly the first \<open>k\<close> bytes of \<open>d\<close> are consumed, the
  output file of \<open>d\<close> does not exist afterwards, no document after \<open>d\<close> is started (the
  result does not depend on them), and every other file is as the documents \<open>pre\<close>
  left it, but for the slice file of \<open>d\<close>.
\<close>

theorem cancellation_mid_document:
  assumes "main_loop cfg sg w pre = (0, w1, Some (Suc k))"
    and "prep d = Ready" and "close_in_ok d" and "close_out_ok d" and "\<not> to_stdout cfg"
    and "k \<le> length (input d)"
    and "run cfg (initial cfg) (take k (input d)) = Inr st"
  shows "\<exists>w2. main_loop cfg sg w (pre @ d # post) = (0, w2, Some 0)
           \<and> loop cfg (Some k) (initial cfg) (input d) = (None, st, Some 0)
           \<and> files w2 (outfile d) = None
           \<and> (\<forall>f. f \<noteq> outfile d \<and> f \<noteq> slicename d \<longrightarrow> files w2 f = files w1 f)
           \<and> stdout w2 = stdout w1"
proof -
  have l: "loop cfg (Some k) (initial cfg) (input d) = (None, st, Some 0)"
    using assms(6,7) by (rule loop_cancelled)
  let ?w = "written cfg d st w1"
  let ?w2 = "?w\<lparr>files := (files ?w)(outfile d := None)\<rparr>"
  have p: "process_json cfg (Some k) w1 d = (0, ?w2, Some 0)"
    using assms(2-5) l by (simp add: process_json_def)
  have "main_loop cfg sg w (pre @ d # post) = main_loop cfg (Some (Suc k)) w1 (d # post)"
    using assms(1) by (rule main_loop_append) simp
  also have "\<dots> = main_loop cfg (Some 0) ?w2 post"
    using p by simp
  also have "\<dots> = (0, ?w2, Some 0)"
    by (cases post) simp_all
  finally have m: "main_loop cfg sg w (pre @ d # post) = (0, ?w2, Some 0)" .
  have "files ?w2 (outfile d) = None"
    by simp
  moreover have "\<forall>f. f \<noteq> outfile d \<and> f \<noteq> slicename d \<longrightarrow> files ?w2 f = files w1 f"
    using assms(5) by (simp add: written_def Let_def split: option.split)
  moreover have "stdout ?w2 = stdout w1"
    using assms(5) by (simp add: written_def Let_def split: option.split)
  ultimately show ?thesis
    using m l by blast
qed

theorem cancellation_mid_document_witness:
  \<open>\<exists>w2. main_loop defaults (Some 14) empty_world
          ([ready_document ''one'' ''{"a":1}''] @ ready_document ''two'' ''{"b":2}'' #
           [ready_document ''three'' ''{"c":3}'']) = (0, w2, Some 0)
      \<and> loop defaults (Some 3) (initial defaults) (input (ready_document ''two'' ''{"b":2}''))
          = (None, (initial defaults)\<lparr>name := ''b'', in_quotes := True\<rparr>, Some 0)
      \<and> files w2 (outfile (ready_document ''two'' ''{"b":2}'')) = None
      \<and> (\<forall>f. f \<noteq> outfile (ready_document ''two'' ''{"b":2}'')
              \<and> f \<noteq> slicename (ready_document ''two'' ''{"b":2}'')
            \<longrightarrow> files w2 f = files \<lparr>files = (\<lambda>f. None)(''one.txt'' \<mapsto> ''/a = 1'' @ [LF]),
                                      stdout = []\<rparr> f)
      \<and> stdout w2 = stdout \<lparr>files = (\<lambda>f. None)(''one.txt'' \<mapsto> ''/a = 1'' @ [LF]), stdout = []\<rparr>\<close>
proof -
  have 1: \<open>main_loop defaults (Some 14) empty_world [ready_document ''one'' ''{"a":1}'']
      = (0, \<lparr>files = (\<lambda>f. None)(''one.txt'' \<mapsto> ''/a = 1'' @ [LF]), stdout = []\<rparr>, Some (Suc 3))\<close>
    by (simp add: driver_eval eval)
  have 2: \<open>run defaults (initial defaults) (take 3 (input (ready_document ''two'' ''{"b":2}'')))
      = Inr ((initial defaults)\<lparr>name := ''b'', in_quotes := True\<rparr>)\<close>
    by (simp add: ready_document_def eval)
  show ?thesis
    using cancellation_mid_document [OF 1 _ _ _ _ _ 2, of \<open>[ready_document ''three'' ''{"c":3}'']\<close>]
    by (simp add: ready_document_def defaults_def)
qed

subsection \<open>How each byte changes the mode\<close>

lemma value_records_snoc [simp]:
  "value_records (es @ [e]) = value_records es + (if is_record e then 1 else 0)"
  by (simp add: value_records_def)

lemma mode_emit:
  "mode (emit e st) = (in_quotes st, protect st, in_unicode st, in_value st, valueout st,
                       value_records (out st) + (if is_record e then 1 else 0))"
  by (simp add: mode_def emit_def)

lemma mode_slices [simp]:
  "mode (write_slice c st) = mode st" "mode (start_slice cfg c st) = mode st"
  "mode (stop_slice st) = mode st"
  by (simp_all add: mode_def write_slice_def start_slice_def stop_slice_def)

lemma mode_name_append [simp]: "mode (name_append c st) = mode st"
  by (simp add: mode_def name_append_def)

lemma mode_structural [simp]: "mode (structural cfg st) = mode st"
  by (simp add: mode_def structural_def emit_def)

lemma mode_path_remove [simp]: "mode (path_remove cfg w st) = mode st"
  by (simp add: mode_def path_remove_def split: option.split)

lemma mode_path_append: "path_append cfg s st = Inr st1 \<Longrightarrow> mode st1 = mode st"
  by (auto simp: mode_def path_append_def split: option.splits if_splits)

lemma mode_end_value:
  "mode (end_value st) = (in_quotes st, protect st, in_unicode st, in_value st, False,
                          value_records (out st))"
  by (simp add: mode_def end_value_def stop_slice_def emit_def)

lemma mode_putvalue:
  "mode (putvalue cfg c st) = (in_quotes st, protect st, in_unicode st, in_value st, True,
                               value_records (out st) + (if valueout st then 0 else 1))"
  by (simp add: mode_def putvalue_def emit_def write_slice_def start_slice_def)

lemma path_remove_fields [simp]:
  "in_quotes (path_remove cfg w st) = in_quotes st" "protect (path_remove cfg w st) = protect st"
  "in_unicode (path_remove cfg w st) = in_unicode st" "in_value (path_remove cfg w st) = in_value st"
  "valueout (path_remove cfg w st) = valueout st" "out (path_remove cfg w st) = out st"
  by (simp_all add: path_remove_def split: option.split)

lemma end_value_more_fields [simp]:
  "protect (end_value st) = protect st" "in_unicode (end_value st) = in_unicode st"
  "value_records (out (end_value st)) = value_records (out st)"
  by (simp_all add: end_value_def stop_slice_def emit_def)

lemma mode_eqD:
  "mode a = mode b \<Longrightarrow> in_quotes a = in_quotes b \<and> protect a = protect b
     \<and> in_unicode a = in_unicode b \<and> in_value a = in_value b \<and> valueout a = valueout b
     \<and> value_records (out a) = value_records (out b)"
  by (simp add: mode_def)

lemma mode_other_fields [simp]:
  "mode (st\<lparr>last_comma := b\<rparr>) = mode st" "mode (st\<lparr>idx := i\<rparr>) = mode st"
  "mode (st\<lparr>name := n\<rparr>) = mode st" "mode (st\<lparr>linenum := l\<rparr>) = mode st"
  "mode (st\<lparr>unicode := u\<rparr>) = mode st"
  by (simp_all add: mode_def)

lemma step_white:
  assumes "white c" "\<not> in_quotes st"
  shows "\<exists>st1. step cfg st c = Inr st1 \<and> mode st1 = mode st"
  using assms by (auto simp: white_def step_def outside_def mode_def)

lemma step_open_brace:
  assumes "\<not> in_quotes st"
  shows "\<exists>st1. step cfg st (CHR ''{'') = Inr st1
           \<and> mode st1 = (False, protect st, in_unicode st, 0, valueout st, value_records (out st))"
  using assms by (simp add: step_def outside_def mode_def structural_def emit_def)

lemma step_open_bracket:
  assumes "\<not> in_quotes st" "step cfg st (CHR ''['') = Inr st1"
  shows "mode st1 = (False, protect st, in_unicode st, 2, valueout st, value_records (out st))"
proof -
  let ?st0 = "(structural cfg st)\<lparr>in_value := 2\<rparr>"
  have m0: "mode ?st0 = (False, protect st, in_unicode st, 2, valueout st, value_records (out st))"
    using assms(1) by (simp add: mode_def structural_def emit_def)
  show ?thesis
  proof (cases "last_comma st")
    case True
    with assms have "st1 = ?st0\<lparr>last_comma := False\<rparr>"
      by (simp add: step_def outside_def)
    with m0 show ?thesis by simp
  next
    case False
    with assms obtain st2 where a: "path_append cfg (if gen_index cfg then ''0'' else ''#'') ?st0 = Inr st2"
      and s: "st1 = st2\<lparr>last_comma := False\<rparr>"
      by (auto simp: step_def outside_def split: sum.splits)
    from a have "mode st2 = mode ?st0" by (rule mode_path_append)
    with m0 s show ?thesis by simp
  qed
qed

lemma step_colon:
  assumes "\<not> in_quotes st" "step cfg st (CHR '':'') = Inr st1"
  shows "mode st1 = (False, protect st, in_unicode st, 1, valueout st, value_records (out st))"
proof -
  from assms obtain st2 where a: "path_append cfg (cstr (name st)) (st\<lparr>in_value := 1\<rparr>) = Inr st2"
    and s: "st1 = st2\<lparr>name := [], last_comma := False\<rparr>"
    by (auto simp: step_def outside_def split: sum.splits)
  from a have "mode st2 = mode (st\<lparr>in_value := 1\<rparr>)" by (rule mode_path_append)
  with s assms(1) show ?thesis by (simp add: mode_def)
qed

lemma step_comma_mode:
  assumes "\<not> in_quotes st" "step cfg st (CHR '','') = Inr st1"
  shows "mode st1 = (False, protect st, in_unicode st, if in_value st < 2 then 0 else in_value st,
                     False, value_records (out st))"
proof -
  define st2 where "st2 = (if in_value (end_value st) = 2 then path_remove cfg True (end_value st)
                           else end_value st)"
  have m2: "mode st2 = (False, protect st, in_unicode st, in_value st, False, value_records (out st))"
    using assms(1) by (simp add: st2_def mode_end_value)
  define r where "r = (if in_value st2 = 1 then Inr (path_remove cfg False st2)
               else if idx st2 < ULONG_MAX cfg then
                 (if gen_index cfg
                  then path_append cfg (decimal (idx st2 + 1)) (st2\<lparr>idx := idx st2 + 1\<rparr>)
                  else path_append cfg ''#'' st2)
               else Inr st2)"
  have c: "comma cfg st = (case r of Inl e \<Rightarrow> Inl e
         | Inr st3 \<Rightarrow> Inr (st3\<lparr>in_value := (if in_value st3 < 2 then 0 else in_value st3),
                      idx := ULONG_MAX cfg, name := []\<rparr>))"
    by (simp add: comma_def st2_def r_def Let_def)
  from assms c obtain st3 where r: "r = Inr st3"
    and s: "st1 = st3\<lparr>in_value := (if in_value st3 < 2 then 0 else in_value st3),
                      idx := ULONG_MAX cfg, name := [], last_comma := True\<rparr>"
    by (auto simp: step_comma split: sum.splits)
  have "mode st3 = mode st2"
    using r mode_path_append [of cfg _ _ st3]
    by (auto simp: r_def split: if_splits)
  with m2 s show ?thesis by (simp add: mode_def)
qed

lemma step_close_mode:
  assumes "\<not> in_quotes st" "c = CHR ''}'' \<or> c = CHR '']''"
  shows "\<exists>st1. step cfg st c = Inr st1
           \<and> mode st1 = (False, protect st, in_unicode st, 0, False, value_records (out st))"
proof -
  have "mode (close_container cfg c st)
          = (False, protect st, in_unicode st, 0, False, value_records (out st))"
    using assms(1) by (simp add: close_container_def Let_def mode_def)
  with assms show ?thesis by (simp add: step_close)
qed

lemma value_records_simps [simp]:
  "value_records [] = 0"
  "value_records (e # es) = (if is_record e then 1 else 0) + value_records es"
  "value_records (xs @ ys) = value_records xs + value_records ys"
  by (simp_all add: value_records_def)

lemma step_open_quote:
  assumes "\<not> in_quotes st"
  shows "\<exists>st1. step cfg st dquote = Inr st1
           \<and> mode st1 = (True, protect st, in_unicode st, in_value st,
                          if in_value st \<noteq> 0 then True else valueout st,
                          value_records (out st)
                            + (if in_value st \<noteq> 0 \<and> \<not> valueout st then 1 else 0))"
  using assms by (simp add: step_def outside_def mode_def putvalue_def emit_def write_slice_def
      start_slice_def)

lemma step_literal_byte:
  assumes "\<not> in_quotes st" "in_value st \<noteq> 0"
    and "\<not> white c" "c \<notin> set ''{}[]:,''" "c \<noteq> dquote"
  shows "\<exists>st1. step cfg st c = Inr st1
           \<and> mode st1 = (False, protect st, in_unicode st, in_value st, True,
                          value_records (out st) + (if valueout st then 0 else 1))"
  using assms by (simp add: step_def outside_def white_def mode_def putvalue_def emit_def
      write_slice_def start_slice_def)

lemma step_close_quote:
  assumes "in_quotes st" "\<not> protect st" "in_value st \<noteq> 0 \<longrightarrow> valueout st"
  shows "\<exists>st1. step cfg st dquote = Inr st1
           \<and> mode st1 = (False, False, in_unicode st, in_value st, valueout st,
                          value_records (out st))"
  using assms by (auto simp: step_def inside_def mode_def putvalue_def emit_def write_slice_def)

lemma step_plain:
  assumes "in_quotes st" "\<not> protect st" "in_unicode st = 0" "in_value st \<noteq> 0 \<longrightarrow> valueout st"
    and "c \<noteq> dquote" "c \<noteq> backslash"
  shows "\<exists>st1. step cfg st c = Inr st1 \<and> mode st1 = mode st"
proof (cases "in_value st = 0")
  case True
  with assms show ?thesis
    by (simp add: step_def inside_def Let_def mode_def name_append_def)
next
  case False
  with assms have "valueout st" by simp
  with False assms show ?thesis
    by (simp add: step_def inside_def Let_def mode_def putvalue_def emit_def write_slice_def)
qed

lemma step_backslash:
  assumes "in_quotes st" "\<not> protect st" "in_unicode st = 0"
  shows "step cfg st backslash = Inr (st\<lparr>protect := True\<rparr>)"
  using assms by (simp add: step_def inside_def)

lemma step_escaped:
  assumes "in_quotes st" "protect st" "in_unicode st = 0" "in_value st \<noteq> 0 \<longrightarrow> valueout st"
    and "c \<noteq> CHR ''u''"
  shows "\<exists>st1. step cfg st c = Inr st1
           \<and> mode st1 = (True, False, 0, in_value st, valueout st, value_records (out st))"
proof (cases "in_value st = 0")
  case True
  with assms show ?thesis
    by (simp add: step_def inside_def Let_def mode_def name_append_def)
next
  case False
  with assms have "valueout st" by simp
  with False assms show ?thesis
    by (simp add: step_def inside_def Let_def mode_def putvalue_def emit_def write_slice_def)
qed

lemma step_u:
  assumes "in_quotes st" "protect st"
  shows "step cfg st (CHR ''u'') = Inr (st\<lparr>in_unicode := 1, unicode := 0, protect := False\<rparr>)"
  using assms by (simp add: step_def inside_def)

lemma hex_digit_Some: "isxdigit c \<Longrightarrow> \<exists>d. hex_digit c = Some d"
  by (auto simp: isxdigit_def isdigit_def hex_digit_def Let_def)

lemma isxdigit_not_quote: "isxdigit c \<Longrightarrow> c \<noteq> dquote"
  by (auto simp: isxdigit_def isdigit_def byte_def)

lemma step_hex:
  assumes "in_quotes st" "\<not> protect st" "in_unicode st \<noteq> 0" "in_unicode st \<noteq> 4" "isxdigit c"
  shows "\<exists>st1. step cfg st c = Inr st1
           \<and> mode st1 = (True, False, in_unicode st + 1, in_value st, valueout st,
                          value_records (out st))"
proof -
  obtain d where "hex_digit c = Some d" using assms(5) hex_digit_Some by blast
  with assms isxdigit_not_quote [of c] show ?thesis
    by (simp add: step_def inside_def mode_def Let_def)
qed

lemma mode_decode_unicode:
  assumes "decode_unicode cfg st = Inr st1" "in_value st \<noteq> 0 \<longrightarrow> valueout st"
  shows "mode st1 = (in_quotes st, protect st, 0, in_value st, valueout st, value_records (out st))"
proof -
  from assms(1) obtain bs where "utf8_bytes cfg (unicode st) = Inr bs"
    by (auto simp: decode_unicode_def split: sum.splits)
  moreover have "mode (foldl (\<lambda>s b. name_append b s) st bs) = mode st"
    by (induction bs arbitrary: st) simp_all
  ultimately show ?thesis
    using assms by (auto simp: decode_unicode_def mode_def emit_def split: if_splits)
qed

lemma step_hex_last:
  assumes "in_quotes st" "\<not> protect st" "in_unicode st = 4" "isxdigit c"
    and "in_value st \<noteq> 0 \<longrightarrow> valueout st" and "step cfg st c = Inr st1"
  shows "mode st1 = (True, False, 0, in_value st, valueout st, value_records (out st))"
proof -
  obtain d where d: "hex_digit c = Some d" using assms(4) hex_digit_Some by blast
  let ?st0 = "st\<lparr>unicode := or (push_bit 4 (unicode st)) d\<rparr>"
  have "decode_unicode cfg ?st0 = Inr st1"
    using assms d isxdigit_not_quote [of c] by (simp add: step_def inside_def Let_def)
  then have "mode st1 = (in_quotes ?st0, protect ?st0, 0, in_value ?st0, valueout ?st0,
                          value_records (out ?st0))"
    using assms(5) by (intro mode_decode_unicode) simp_all
  with assms show ?thesis by simp
qed

subsection \<open>How each token changes the mode\<close>

lemma run_appendD:
  "run cfg st (a @ b) = Inr fin \<Longrightarrow> \<exists>st1. run cfg st a = Inr st1 \<and> run cfg st1 b = Inr fin"
  by (simp add: run_append split: sum.splits)

lemma run_white:
  "list_all white w \<Longrightarrow> \<not> in_quotes st \<Longrightarrow> \<exists>st1. run cfg st w = Inr st1 \<and> mode st1 = mode st"
proof (induction w arbitrary: st)
  case Nil
  then show ?case by simp
next
  case (Cons c w)
  from Cons.prems have "white c" and w: "list_all white w" by simp_all
  then obtain st1 where s: "step cfg st c = Inr st1" "mode st1 = mode st"
    using step_white [of c st cfg] Cons.prems(2) by blast
  then have "\<not> in_quotes st1" using Cons.prems(2) by (simp add: mode_def)
  with w obtain st2 where "run cfg st1 w = Inr st2" "mode st2 = mode st1"
    using Cons.IH by blast
  with s show ?case by simp
qed

lemma run_literal_rest:
  assumes "\<forall>c \<in> set s. \<not> white c \<and> c \<notin> set ''{}[]:,'' \<and> c \<noteq> dquote"
    and "\<not> in_quotes st" "in_value st \<noteq> 0" "valueout st"
  shows "\<exists>st1. run cfg st s = Inr st1 \<and> mode st1 = mode st"
  using assms
proof (induction s arbitrary: st)
  case Nil
  then show ?case by simp
next
  case (Cons c s)
  from Cons.prems(1) have c: "\<not> white c" "c \<notin> set ''{}[]:,''" "c \<noteq> dquote"
    and cs: "\<forall>c \<in> set s. \<not> white c \<and> c \<notin> set ''{}[]:,'' \<and> c \<noteq> dquote"
    by simp_all
  obtain st1 where s: "step cfg st c = Inr st1"
    "mode st1 = (False, protect st, in_unicode st, in_value st, True,
                 value_records (out st) + (if valueout st then 0 else 1))"
    using step_literal_byte [OF Cons.prems(2,3) c, of cfg] by blast
  with Cons.prems have m: "mode st1 = mode st" by (simp add: mode_def)
  then have "\<not> in_quotes st1" "in_value st1 \<noteq> 0" "valueout st1"
    using Cons.prems by (simp_all add: mode_def)
  with cs have "\<exists>st2. run cfg st1 s = Inr st2 \<and> mode st2 = mode st1"
    by (intro Cons.IH)
  then obtain st2 where "run cfg st1 s = Inr st2" "mode st2 = mode st1"
    by blast
  with s m show ?case by simp
qed

lemma run_literal:
  assumes "literal_ok s" and "\<not> in_quotes st" "in_value st \<noteq> 0" "\<not> valueout st"
  shows "\<exists>st1. run cfg st s = Inr st1
           \<and> mode st1 = (False, protect st, in_unicode st, in_value st, True,
                          value_records (out st) + 1)"
proof -
  from assms(1) have ne: "s \<noteq> []"
    and ok: "\<forall>c \<in> set s. \<not> white c \<and> c \<notin> set ''{}[]:,'' \<and> c \<noteq> dquote"
    unfolding literal_ok_def by blast+
  from ne obtain c cs where s: "s = c # cs" by (cases s) simp_all
  from ok have c: "\<not> white c" "c \<notin> set ''{}[]:,''" "c \<noteq> dquote"
    and cs: "\<forall>c \<in> set cs. \<not> white c \<and> c \<notin> set ''{}[]:,'' \<and> c \<noteq> dquote"
    unfolding s by simp_all
  obtain st1 where s1: "step cfg st c = Inr st1"
    and m0: "mode st1 = (False, protect st, in_unicode st, in_value st, True,
                 value_records (out st) + (if valueout st then 0 else 1))"
    using step_literal_byte [OF assms(2,3) c, of cfg] by blast
  from m0 assms(4) have m1: "mode st1 = (False, protect st, in_unicode st, in_value st, True,
                 value_records (out st) + 1)"
    by simp
  then have q: "\<not> in_quotes st1" "in_value st1 \<noteq> 0" "valueout st1"
    using assms(3) by (simp_all add: mode_def)
  have "\<exists>st2. run cfg st1 cs = Inr st2 \<and> mode st2 = mode st1"
    using cs q by (rule run_literal_rest)
  then obtain st2 where "run cfg st1 cs = Inr st2" "mode st2 = mode st1"
    by blast
  with s s1 m1 show ?thesis by simp
qed

lemma run_item:
  assumes "item_ok i" and "in_quotes st" "\<not> protect st" "in_unicode st = 0"
    and "in_value st \<noteq> 0 \<longrightarrow> valueout st" and "run cfg st (item_text i) = Inr st1"
  shows "mode st1 = mode st"
proof (cases i)
  case (Plain c)
  with assms step_plain [of st c cfg] show ?thesis by auto
next
  case (Escaped c)
  let ?st0 = "st\<lparr>protect := True\<rparr>"
  obtain st2 where "step cfg ?st0 c = Inr st2"
    "mode st2 = (True, False, 0, in_value ?st0, valueout ?st0, value_records (out ?st0))"
    using step_escaped [of ?st0 c cfg] assms Escaped by auto
  with assms Escaped show ?thesis
    by (simp add: step_backslash mode_def)
next
  case (Unicode a b c d)
  let ?s0 = "st\<lparr>protect := True\<rparr>"
  let ?s1 = "?s0\<lparr>in_unicode := 1, unicode := 0, protect := False\<rparr>"
  have x: "isxdigit a" "isxdigit b" "isxdigit c" "isxdigit d"
    using assms(1) Unicode by simp_all
  have r: "run cfg ?s1 [a, b, c, d] = Inr st1"
    using assms Unicode by (simp add: step_backslash step_u)
  obtain s2 where s2: "step cfg ?s1 a = Inr s2"
    "mode s2 = (True, False, 2, in_value st, valueout st, value_records (out st))"
    using step_hex [of ?s1 a cfg] x(1) assms(2) by auto
  obtain s3 where s3: "step cfg s2 b = Inr s3"
    "mode s3 = (True, False, 3, in_value st, valueout st, value_records (out st))"
    using step_hex [of s2 b cfg] x(2) s2(2) by (auto simp: mode_def)
  obtain s4 where s4: "step cfg s3 c = Inr s4"
    "mode s4 = (True, False, 4, in_value st, valueout st, value_records (out st))"
    using step_hex [of s3 c cfg] x(3) s3(2) by (auto simp: mode_def)
  have "step cfg s4 d = Inr st1"
    using r s2(1) s3(1) s4(1) by (simp split: sum.splits)
  then have "mode st1 = (True, False, 0, in_value s4, valueout s4, value_records (out s4))"
    using s4(2) x(4) assms(5) by (intro step_hex_last) (simp_all add: mode_def)
  with s4(2) assms show ?thesis by (simp add: mode_def)
qed

lemma run_items:
  assumes "list_all item_ok items" and "in_quotes st" "\<not> protect st" "in_unicode st = 0"
    and "in_value st \<noteq> 0 \<longrightarrow> valueout st"
    and "run cfg st (concat (map item_text items)) = Inr st1"
  shows "mode st1 = mode st"
  using assms
proof (induction items arbitrary: st)
  case Nil
  then show ?case by simp
next
  case (Cons i items)
  from Cons.prems(6) obtain st2 where r: "run cfg st (item_text i) = Inr st2"
    "run cfg st2 (concat (map item_text items)) = Inr st1"
    using run_appendD [of cfg st "item_text i"] by auto
  have m: "mode st2 = mode st"
    using Cons.prems r(1) by (intro run_item [of i]) simp_all
  then have "in_quotes st2" "\<not> protect st2" "in_unicode st2 = 0" "in_value st2 \<noteq> 0 \<longrightarrow> valueout st2"
    using Cons.prems by (simp_all add: mode_def)
  then have "mode st1 = mode st2"
    using Cons.prems(1) r(2) by (intro Cons.IH) simp_all
  with m show ?case by simp
qed

lemma run_quoted:
  assumes "list_all item_ok items" and "ready st" "\<not> valueout st"
    and "run cfg st (text_of (Quoted items)) = Inr st1"
  shows "mode st1 = (False, False, 0, in_value st, in_value st \<noteq> 0,
                     value_records (out st) + (if in_value st \<noteq> 0 then 1 else 0))"
proof -
  obtain s0 where s0: "step cfg st dquote = Inr s0"
    "mode s0 = (True, False, 0, in_value st, in_value st \<noteq> 0,
                value_records (out st) + (if in_value st \<noteq> 0 then 1 else 0))"
    using step_open_quote [of st cfg] assms(2,3) by (auto simp: ready_def)
  with assms(4) have "run cfg s0 (concat (map item_text items) @ [dquote]) = Inr st1"
    by simp
  then obtain s1 where s1: "run cfg s0 (concat (map item_text items)) = Inr s1"
    "run cfg s1 [dquote] = Inr st1"
    using run_appendD by blast
  have m1: "mode s1 = mode s0"
    using assms(1) s0(2) s1(1) by (intro run_items [of items]) (simp_all add: mode_def)
  obtain s2 where "step cfg s1 dquote = Inr s2"
    "mode s2 = (False, False, in_unicode s1, in_value s1, valueout s1, value_records (out s1))"
    using step_close_quote [of s1 cfg] m1 s0(2) by (auto simp: mode_def)
  with s1(2) m1 s0(2) show ?thesis by (simp add: mode_def)
qed

lemma spaced_ConsD:
  assumes "spaced (t # ts) s"
  shows "\<exists>w s1. s = w @ text_of t @ s1 \<and> list_all white w \<and> spaced ts s1"
proof -
  from assms obtain s1 where d: "dropWhile white s = text_of t @ s1"
    by (auto simp: prefix_def)
  with assms have "spaced ts s1" by simp
  moreover have "s = takeWhile white s @ text_of t @ s1"
    using d takeWhile_dropWhile_id [of white s] by simp
  moreover have "list_all white (takeWhile white s)"
    by (simp add: list_all_iff) (meson set_takeWhileD)
  ultimately show ?thesis by blast
qed

lemma past_white:
  assumes "spaced (t # ts) s" "run cfg st s = Inr fin" "\<not> in_quotes st"
  shows "\<exists>st0 s1. mode st0 = mode st \<and> run cfg st0 (text_of t @ s1) = Inr fin \<and> spaced ts s1"
proof -
  from assms(1) obtain w s1 where s: "s = w @ text_of t @ s1" "list_all white w" "spaced ts s1"
    using spaced_ConsD by blast
  from s(2) assms(3) obtain st0 where w: "run cfg st w = Inr st0" "mode st0 = mode st"
    using run_white by blast
  with assms(2) s(1) have "run cfg st0 (text_of t @ s1) = Inr fin"
    by (simp add: run_append)
  with w(2) s(3) show ?thesis by blast
qed

lemma consume_punct:
  assumes "spaced (Punct c # ts) s" "run cfg st s = Inr fin" "\<not> in_quotes st"
  shows "\<exists>st0 st1 s1. mode st0 = mode st \<and> step cfg st0 c = Inr st1
           \<and> spaced ts s1 \<and> run cfg st1 s1 = Inr fin"
proof -
  obtain st0 s1 where a: "mode st0 = mode st"
    "run cfg st0 (text_of (Punct c) @ s1) = Inr fin" "spaced ts s1"
    using past_white [OF assms] by blast
  from a(2) obtain st1 where "step cfg st0 c = Inr st1" "run cfg st1 s1 = Inr fin"
    by (auto split: sum.splits)
  with a(1,3) show ?thesis by blast
qed

lemma consume_quoted:
  assumes "spaced (Quoted items # ts) s" "run cfg st s = Inr fin" "ready st" "\<not> valueout st"
    and "list_all item_ok items"
  shows "continues cfg fin ts (\<lambda>st1. mode st1 =
           (False, False, 0, in_value st, in_value st \<noteq> 0,
            value_records (out st) + (if in_value st \<noteq> 0 then 1 else 0)))"
proof -
  have nq: "\<not> in_quotes st" using assms(3) by (simp add: ready_def)
  obtain st0 s1 where a: "mode st0 = mode st"
    "run cfg st0 (text_of (Quoted items) @ s1) = Inr fin" "spaced ts s1"
    using past_white [OF assms(1,2) nq] by blast
  from a(2) obtain st1 where r: "run cfg st0 (text_of (Quoted items)) = Inr st1"
    "run cfg st1 s1 = Inr fin"
    using run_appendD by blast
  have "ready st0" "\<not> valueout st0"
    using a(1) assms(3,4) by (simp_all add: mode_def ready_def)
  then have "mode st1 = (False, False, 0, in_value st0, in_value st0 \<noteq> 0,
                     value_records (out st0) + (if in_value st0 \<noteq> 0 then 1 else 0))"
    using assms(5) r(1) by (intro run_quoted)
  with a(1) have "mode st1 = (False, False, 0, in_value st, in_value st \<noteq> 0,
            value_records (out st) + (if in_value st \<noteq> 0 then 1 else 0))"
    by (simp add: mode_def)
  with a(3) r(2) show ?thesis unfolding continues_def by blast
qed

lemma consume_literal:
  assumes "spaced (Lit x # ts) s" "run cfg st s = Inr fin" "ready st" "\<not> valueout st"
    and "literal_ok x" "in_value st \<noteq> 0"
  shows "continues cfg fin ts (\<lambda>st1. mode st1 =
           (False, False, 0, in_value st, True, value_records (out st) + 1))"
proof -
  have nq: "\<not> in_quotes st" using assms(3) by (simp add: ready_def)
  obtain st0 s1 where a: "mode st0 = mode st"
    "run cfg st0 (text_of (Lit x) @ s1) = Inr fin" "spaced ts s1"
    using past_white [OF assms(1,2) nq] by blast
  have q: "\<not> in_quotes st0" "in_value st0 \<noteq> 0" "\<not> valueout st0"
    using a(1) assms(3,4,6) by (simp_all add: mode_def ready_def)
  have "\<exists>st1. run cfg st0 x = Inr st1
           \<and> mode st1 = (False, protect st0, in_unicode st0, in_value st0, True,
                          value_records (out st0) + 1)"
    using assms(5) q by (rule run_literal)
  then obtain st1 where r: "run cfg st0 x = Inr st1"
    "mode st1 = (False, protect st0, in_unicode st0, in_value st0, True, value_records (out st0) + 1)"
    by blast
  with a(2) have "run cfg st1 s1 = Inr fin" by (simp add: run_append)
  moreover have "mode st1 = (False, False, 0, in_value st, True, value_records (out st) + 1)"
    using r(2) a(1) assms(3) by (simp add: mode_def ready_def)
  ultimately show ?thesis using a(3) unfolding continues_def by blast
qed

subsection \<open>Counting the value records of a document\<close>

lemma containers_scalars_first: "list_all is_container es \<Longrightarrow> scalars_first es"
  by (induction es) simp_all

lemma continuesI:
  "spaced ts s1 \<Longrightarrow> run cfg st1 s1 = Inr fin \<Longrightarrow> P st1 \<Longrightarrow> continues cfg fin ts P"
  unfolding continues_def by blast

lemma continuesE:
  assumes "continues cfg fin ts P"
  obtains st1 s1 where "spaced ts s1" "run cfg st1 s1 = Inr fin" "P st1"
  using assms unfolding continues_def by blast

lemma after_separator:
  assumes "after_value e st st1" and "spaced (Punct (CHR '','') # ts) s1" "run cfg st1 s1 = Inr fin"
  shows "continues cfg fin ts (\<lambda>st2. ready st2 \<and> \<not> valueout st2
           \<and> in_value st2 = (if is_container e \<or> in_value st < 2 then 0 else in_value st)
           \<and> value_records (out st2) = value_records (out st) + leaves e)"
proof -
  have nq: "\<not> in_quotes st1" using assms(1) by (simp add: after_value_def mode_def)
  obtain st0 st2 s2 where a: "mode st0 = mode st1" "step cfg st0 (CHR '','') = Inr st2"
    "spaced ts s2" "run cfg st2 s2 = Inr fin"
    using consume_punct [OF assms(2,3) nq] by blast
  have nq0: "\<not> in_quotes st0" using a(1) nq by (simp add: mode_def)
  have "mode st2 = (False, protect st0, in_unicode st0,
                    if in_value st0 < 2 then 0 else in_value st0, False, value_records (out st0))"
    using nq0 a(2) by (rule step_comma_mode)
  with a(1) assms(1) have "ready st2 \<and> \<not> valueout st2
           \<and> in_value st2 = (if is_container e \<or> in_value st < 2 then 0 else in_value st)
           \<and> value_records (out st2) = value_records (out st) + leaves e"
    by (auto simp: after_value_def mode_def ready_def)
  with a(3,4) show ?thesis by (intro continuesI)
qed

lemma elements_mode:
  assumes "\<And>e st ts s. e \<in> set es \<Longrightarrow> supported e \<Longrightarrow> ready st \<Longrightarrow> \<not> valueout st
             \<Longrightarrow> (\<not> is_container e \<longrightarrow> in_value st \<noteq> 0)
             \<Longrightarrow> spaced (tokens e @ ts) s \<Longrightarrow> run cfg st s = Inr fin
             \<Longrightarrow> continues cfg fin ts (after_value e st)"
    and "\<forall>e \<in> set es. supported e" and "scalars_first es"
    and "ready st" and "\<not> valueout st"
    and "in_value st = 2 \<or> (in_value st = 0 \<and> list_all is_container es)"
    and "spaced (separated (map tokens es) @ ts) s" and "run cfg st s = Inr fin"
  shows "continues cfg fin ts (\<lambda>st1. ready st1
           \<and> value_records (out st1) = value_records (out st) + sum_list (map leaves es))"
  using assms
proof (induction es arbitrary: st s)
  case Nil
  then show ?case by (intro continuesI [of ts s cfg st]) (simp_all add: ready_def)
next
  case (Cons e es)
  have sup: "supported e" using Cons.prems(2) by simp
  have sc: "\<not> is_container e \<longrightarrow> in_value st \<noteq> 0" using Cons.prems(6) by auto
  show ?case
  proof (cases es)
    case Nil
    with Cons.prems(7) have "spaced (tokens e @ ts) s" by simp
    then have "continues cfg fin ts (after_value e st)"
      using sup Cons.prems(4,5,8) sc by (intro Cons.prems(1)) simp_all
    then obtain st1 s1 where "spaced ts s1" "run cfg st1 s1 = Inr fin" "after_value e st st1"
      by (rule continuesE)
    then show ?thesis
      using Nil by (intro continuesI [of ts s1 cfg st1]) (simp_all add: after_value_def mode_def ready_def)
  next
    case (Cons y zs)
    let ?rest = "Punct (CHR '','') # separated (map tokens es) @ ts"
    from Cons Cons.prems(7) have "spaced (tokens e @ ?rest) s" by simp
    then have "continues cfg fin ?rest (after_value e st)"
      using sup Cons.prems(4,5,8) sc by (intro Cons.prems(1)) simp_all
    then obtain st1 s1 where a: "spaced ?rest s1" "run cfg st1 s1 = Inr fin" "after_value e st st1"
      by (rule continuesE)
    have "continues cfg fin (separated (map tokens es) @ ts) (\<lambda>st2. ready st2 \<and> \<not> valueout st2
           \<and> in_value st2 = (if is_container e \<or> in_value st < 2 then 0 else in_value st)
           \<and> value_records (out st2) = value_records (out st) + leaves e)"
      using a(3,1,2) by (rule after_separator)
    then obtain st2 s2 where b: "spaced (separated (map tokens es) @ ts) s2"
      "run cfg st2 s2 = Inr fin" "ready st2" "\<not> valueout st2"
      "in_value st2 = (if is_container e \<or> in_value st < 2 then 0 else in_value st)"
      "value_records (out st2) = value_records (out st) + leaves e"
      by (rule continuesE) blast
    have iv: "in_value st2 = 2 \<or> (in_value st2 = 0 \<and> list_all is_container es)"
      using b(5) Cons.prems(3,6) by (cases "is_container e") auto
    have sf: "scalars_first es"
      using Cons.prems(3) by (cases "is_container e") (simp_all add: containers_scalars_first)
    have "continues cfg fin ts (\<lambda>st3. ready st3
           \<and> value_records (out st3) = value_records (out st2) + sum_list (map leaves es))"
    proof (rule Cons.IH [OF _ _ sf b(3,4) iv b(1,2)])
      show "\<forall>e \<in> set es. supported e" using Cons.prems(2) by simp
    next
      fix e' st' ts' s'
      assume "e' \<in> set es" "supported e'" "ready st'" "\<not> valueout st'"
        "\<not> is_container e' \<longrightarrow> in_value st' \<noteq> 0" "spaced (tokens e' @ ts') s'"
        "run cfg st' s' = Inr fin"
      then show "continues cfg fin ts' (after_value e' st')"
        by (intro Cons.prems(1)) simp_all
    qed
    then show ?thesis
      using b(6) by (simp add: add.assoc)
  qed
qed

lemma member_mode:
  assumes "\<And>st ts s. supported v \<Longrightarrow> ready st \<Longrightarrow> \<not> valueout st
             \<Longrightarrow> (\<not> is_container v \<longrightarrow> in_value st \<noteq> 0)
             \<Longrightarrow> spaced (tokens v @ ts) s \<Longrightarrow> run cfg st s = Inr fin
             \<Longrightarrow> continues cfg fin ts (after_value v st)"
    and "list_all item_ok k" and "supported v"
    and "ready st" and "\<not> valueout st" and "in_value st = 0"
    and "spaced (Quoted k # Punct (CHR '':'') # tokens v @ ts) s" and "run cfg st s = Inr fin"
  shows "continues cfg fin ts (\<lambda>st1. mode st1 =
           (False, False, 0, if is_container v then 0 else 1, \<not> is_container v,
            value_records (out st) + leaves v))"
proof -
  have "continues cfg fin (Punct (CHR '':'') # tokens v @ ts) (\<lambda>st1. mode st1 =
           (False, False, 0, in_value st, in_value st \<noteq> 0,
            value_records (out st) + (if in_value st \<noteq> 0 then 1 else 0)))"
    using assms(7,8,4,5,2) by (rule consume_quoted)
  then obtain st1 s1 where a: "spaced (Punct (CHR '':'') # tokens v @ ts) s1"
    "run cfg st1 s1 = Inr fin"
    "mode st1 = (False, False, 0, in_value st, in_value st \<noteq> 0,
            value_records (out st) + (if in_value st \<noteq> 0 then 1 else 0))"
    by (rule continuesE)
  have nq: "\<not> in_quotes st1" using a(3) by (simp add: mode_def)
  obtain st0 st2 s2 where b: "mode st0 = mode st1" "step cfg st0 (CHR '':'') = Inr st2"
    "spaced (tokens v @ ts) s2" "run cfg st2 s2 = Inr fin"
    using consume_punct [OF a(1,2) nq] by blast
  have nq0: "\<not> in_quotes st0" using b(1) nq by (simp add: mode_def)
  have "mode st2 = (False, protect st0, in_unicode st0, 1, valueout st0, value_records (out st0))"
    using nq0 b(2) by (rule step_colon)
  with b(1) a(3) assms(6) have m2: "mode st2 = (False, False, 0, 1, False, value_records (out st))"
    by (simp add: mode_def)
  then have "ready st2" "\<not> valueout st2" "\<not> is_container v \<longrightarrow> in_value st2 \<noteq> 0"
    by (simp_all add: mode_def ready_def)
  then have "continues cfg fin ts (after_value v st2)"
    using assms(3) b(3,4) by (intro assms(1))
  then obtain st3 s3 where c: "spaced ts s3" "run cfg st3 s3 = Inr fin" "after_value v st2 st3"
    by (rule continuesE)
  from c(3) m2 have "mode st3 = (False, False, 0, if is_container v then 0 else 1,
            \<not> is_container v, value_records (out st) + leaves v)"
    by (simp add: after_value_def mode_def)
  with c(1,2) show ?thesis by (intro continuesI)
qed

lemma members_mode:
  assumes "\<And>m st ts s. m \<in> set ms \<Longrightarrow> supported (snd m) \<Longrightarrow> ready st \<Longrightarrow> \<not> valueout st
             \<Longrightarrow> (\<not> is_container (snd m) \<longrightarrow> in_value st \<noteq> 0)
             \<Longrightarrow> spaced (tokens (snd m) @ ts) s \<Longrightarrow> run cfg st s = Inr fin
             \<Longrightarrow> continues cfg fin ts (after_value (snd m) st)"
    and "\<forall>m \<in> set ms. list_all item_ok (fst m) \<and> supported (snd m)"
    and "ready st" and "\<not> valueout st" and "in_value st = 0"
    and "spaced (separated (map (\<lambda>m. Quoted (fst m) # Punct (CHR '':'') # tokens (snd m)) ms) @ ts) s"
    and "run cfg st s = Inr fin"
  shows "continues cfg fin ts (\<lambda>st1. ready st1
           \<and> value_records (out st1) = value_records (out st) + sum_list (map (\<lambda>m. leaves (snd m)) ms))"
  using assms
proof (induction ms arbitrary: st s)
  case Nil
  then show ?case by (intro continuesI [of ts s cfg st]) (simp_all add: ready_def)
next
  case (Cons m ms)
  have ok: "list_all item_ok (fst m)" "supported (snd m)" using Cons.prems(2) by simp_all
  have vm: "\<And>st ts s. supported (snd m) \<Longrightarrow> ready st \<Longrightarrow> \<not> valueout st
             \<Longrightarrow> (\<not> is_container (snd m) \<longrightarrow> in_value st \<noteq> 0)
             \<Longrightarrow> spaced (tokens (snd m) @ ts) s \<Longrightarrow> run cfg st s = Inr fin
             \<Longrightarrow> continues cfg fin ts (after_value (snd m) st)"
    by (rule Cons.prems(1)) simp_all
  show ?case
  proof (cases ms)
    case Nil
    with Cons.prems(6)
    have "spaced (Quoted (fst m) # Punct (CHR '':'') # tokens (snd m) @ ts) s" by simp
    with vm ok have "continues cfg fin ts (\<lambda>st1. mode st1 =
           (False, False, 0, if is_container (snd m) then 0 else 1, \<not> is_container (snd m),
            value_records (out st) + leaves (snd m)))"
      using Cons.prems(3,4,5,7) by (intro member_mode)
    then obtain st1 s1 where "spaced ts s1" "run cfg st1 s1 = Inr fin"
      "mode st1 = (False, False, 0, if is_container (snd m) then 0 else 1, \<not> is_container (snd m),
            value_records (out st) + leaves (snd m))"
      by (rule continuesE)
    then show ?thesis
      using Nil by (intro continuesI [of ts s1 cfg st1]) (simp_all add: mode_def ready_def)
  next
    case (Cons y zs)
    let ?members = "separated (map (\<lambda>m. Quoted (fst m) # Punct (CHR '':'') # tokens (snd m)) ms)"
    let ?rest = "Punct (CHR '','') # ?members @ ts"
    from Cons Cons.prems(6)
    have "spaced (Quoted (fst m) # Punct (CHR '':'') # tokens (snd m) @ ?rest) s" by simp
    with vm ok have "continues cfg fin ?rest (\<lambda>st1. mode st1 =
           (False, False, 0, if is_container (snd m) then 0 else 1, \<not> is_container (snd m),
            value_records (out st) + leaves (snd m)))"
      using Cons.prems(3,4,5,7) by (intro member_mode)
    then obtain st1 s1 where a: "spaced ?rest s1" "run cfg st1 s1 = Inr fin"
      "mode st1 = (False, False, 0, if is_container (snd m) then 0 else 1, \<not> is_container (snd m),
            value_records (out st) + leaves (snd m))"
      by (rule continuesE)
    have nq: "\<not> in_quotes st1" using a(3) by (simp add: mode_def)
    obtain st0 st2 s2 where b: "mode st0 = mode st1" "step cfg st0 (CHR '','') = Inr st2"
      "spaced (?members @ ts) s2" "run cfg st2 s2 = Inr fin"
      using consume_punct [OF a(1,2) nq] by blast
    have nq0: "\<not> in_quotes st0" using b(1) nq by (simp add: mode_def)
    have "mode st2 = (False, protect st0, in_unicode st0,
                    if in_value st0 < 2 then 0 else in_value st0, False, value_records (out st0))"
      using nq0 b(2) by (rule step_comma_mode)
    with b(1) a(3) have m2: "mode st2 = (False, False, 0, 0, False,
                                         value_records (out st) + leaves (snd m))"
      by (simp add: mode_def)
    then have q: "ready st2" "\<not> valueout st2" "in_value st2 = 0"
      by (simp_all add: mode_def ready_def)
    have "continues cfg fin ts (\<lambda>st3. ready st3
           \<and> value_records (out st3)
               = value_records (out st2) + sum_list (map (\<lambda>m. leaves (snd m)) ms))"
    proof (rule Cons.IH [OF _ _ q b(3,4)])
      show "\<forall>m \<in> set ms. list_all item_ok (fst m) \<and> supported (snd m)"
        using Cons.prems(2) by simp
    next
      fix m' st' ts' s'
      assume "m' \<in> set ms" "supported (snd m')" "ready st'" "\<not> valueout st'"
        "\<not> is_container (snd m') \<longrightarrow> in_value st' \<noteq> 0" "spaced (tokens (snd m') @ ts') s'"
        "run cfg st' s' = Inr fin"
      then show "continues cfg fin ts' (after_value (snd m') st')"
        by (intro Cons.prems(1)) simp_all
    qed
    moreover have "value_records (out st2) = value_records (out st) + leaves (snd m)"
      using m2 by (simp add: mode_def)
    ultimately show ?thesis
      by (simp add: add.assoc)
  qed
qed

lemma continues_mono:
  "continues cfg fin ts P \<Longrightarrow> (\<And>st. P st \<Longrightarrow> Q st) \<Longrightarrow> continues cfg fin ts Q"
  unfolding continues_def by blast

lemma value_mode:
  assumes "supported v" and "ready st" and "\<not> valueout st"
    and "\<not> is_container v \<longrightarrow> in_value st \<noteq> 0"
    and "spaced (tokens v @ ts) s" and "run cfg st s = Inr fin"
  shows "continues cfg fin ts (after_value v st)"
  using assms
proof (induction v arbitrary: st ts s)
  case (Literal x)
  have "continues cfg fin ts (\<lambda>st1. mode st1 =
           (False, False, 0, in_value st, True, value_records (out st) + 1))"
    using Literal by (intro consume_literal [of x ts s]) simp_all
  then show ?case
    by (rule continues_mono) (simp add: after_value_def)
next
  case (String items)
  have "continues cfg fin ts (\<lambda>st1. mode st1 =
           (False, False, 0, in_value st, in_value st \<noteq> 0,
            value_records (out st) + (if in_value st \<noteq> 0 then 1 else 0)))"
    using String by (intro consume_quoted [of items ts s]) simp_all
  moreover have "in_value st \<noteq> 0" using String.prems(4) by simp
  ultimately show ?case
    by (elim continues_mono) (simp add: after_value_def)
next
  case (Array es)
  have nq: "\<not> in_quotes st" using Array.prems(2) by (simp add: ready_def)
  let ?close = "Punct (CHR '']'') # ts"
  have "spaced (Punct (CHR ''['') # separated (map tokens es) @ ?close) s"
    using Array.prems(5) by simp
  then obtain st0 st1 s1 where a: "mode st0 = mode st" "step cfg st0 (CHR ''['') = Inr st1"
    "spaced (separated (map tokens es) @ ?close) s1" "run cfg st1 s1 = Inr fin"
    using consume_punct [OF _ Array.prems(6) nq] by blast
  have nq0: "\<not> in_quotes st0" using a(1) nq by (simp add: mode_def)
  have "mode st1 = (False, protect st0, in_unicode st0, 2, valueout st0, value_records (out st0))"
    using nq0 a(2) by (rule step_open_bracket)
  with a(1) Array.prems(2,3) have m1: "mode st1 = (False, False, 0, 2, False, value_records (out st))"
    by (simp add: mode_def ready_def)
  then have q1: "ready st1" "\<not> valueout st1"
    "in_value st1 = 2 \<or> (in_value st1 = 0 \<and> list_all is_container es)"
    by (simp_all add: mode_def ready_def)
  have "continues cfg fin ?close (\<lambda>st2. ready st2
           \<and> value_records (out st2) = value_records (out st1) + sum_list (map leaves es))"
  proof (rule elements_mode [OF _ _ _ q1 a(3,4)])
    show "\<forall>e \<in> set es. supported e" "scalars_first es"
      using Array.prems(1) by simp_all
  next
    fix e st' ts' s'
    assume "e \<in> set es" "supported e" "ready st'" "\<not> valueout st'"
      "\<not> is_container e \<longrightarrow> in_value st' \<noteq> 0" "spaced (tokens e @ ts') s'"
      "run cfg st' s' = Inr fin"
    then show "continues cfg fin ts' (after_value e st')"
      by (rule Array.IH)
  qed
  then obtain st2 s2 where b: "spaced ?close s2" "run cfg st2 s2 = Inr fin" "ready st2"
    "value_records (out st2) = value_records (out st1) + sum_list (map leaves es)"
    by (rule continuesE) blast
  have nq2: "\<not> in_quotes st2" using b(3) by (simp add: ready_def)
  obtain st3 st4 s4 where c: "mode st3 = mode st2" "step cfg st3 (CHR '']'') = Inr st4"
    "spaced ts s4" "run cfg st4 s4 = Inr fin"
    using consume_punct [OF b(1,2) nq2] by blast
  have nq3: "\<not> in_quotes st3" using c(1) nq2 by (simp add: mode_def)
  have "\<exists>st5. step cfg st3 (CHR '']'') = Inr st5
          \<and> mode st5 = (False, protect st3, in_unicode st3, 0, False, value_records (out st3))"
    using nq3 by (intro step_close_mode) simp_all
  with c(2) have "mode st4 = (False, protect st3, in_unicode st3, 0, False, value_records (out st3))"
    by auto
  with c(1) b(3,4) m1 have "after_value (Array es) st st4"
    by (simp add: after_value_def mode_def ready_def)
  with c(3,4) show ?case by (intro continuesI)
next
  case (Object ms)
  have nq: "\<not> in_quotes st" using Object.prems(2) by (simp add: ready_def)
  let ?close = "Punct (CHR ''}'') # ts"
  let ?members = "separated (map (\<lambda>m. Quoted (fst m) # Punct (CHR '':'') # tokens (snd m)) ms)"
  have "spaced (Punct (CHR ''{'') # ?members @ ?close) s"
    using Object.prems(5) by simp
  then obtain st0 st1 s1 where a: "mode st0 = mode st" "step cfg st0 (CHR ''{'') = Inr st1"
    "spaced (?members @ ?close) s1" "run cfg st1 s1 = Inr fin"
    using consume_punct [OF _ Object.prems(6) nq] by blast
  have nq0: "\<not> in_quotes st0" using a(1) nq by (simp add: mode_def)
  have "\<exists>st5. step cfg st0 (CHR ''{'') = Inr st5
          \<and> mode st5 = (False, protect st0, in_unicode st0, 0, valueout st0, value_records (out st0))"
    using nq0 by (rule step_open_brace)
  with a(2) have "mode st1 = (False, protect st0, in_unicode st0, 0, valueout st0,
                              value_records (out st0))"
    by auto
  with a(1) Object.prems(2,3) have m1: "mode st1 = (False, False, 0, 0, False, value_records (out st))"
    by (simp add: mode_def ready_def)
  then have q1: "ready st1" "\<not> valueout st1" "in_value st1 = 0"
    by (simp_all add: mode_def ready_def)
  have "continues cfg fin ?close (\<lambda>st2. ready st2
           \<and> value_records (out st2)
               = value_records (out st1) + sum_list (map (\<lambda>m. leaves (snd m)) ms))"
  proof (rule members_mode [OF _ _ q1 a(3,4)])
    show "\<forall>m \<in> set ms. list_all item_ok (fst m) \<and> supported (snd m)"
      using Object.prems(1) by simp
  next
    fix m st' ts' s'
    assume m: "m \<in> set ms" and "supported (snd m)" "ready st'" "\<not> valueout st'"
      "\<not> is_container (snd m) \<longrightarrow> in_value st' \<noteq> 0" "spaced (tokens (snd m) @ ts') s'"
      "run cfg st' s' = Inr fin"
    moreover have "snd m \<in> Basic_BNFs.snds m"
      by (cases m) simp
    ultimately show "continues cfg fin ts' (after_value (snd m) st')"
      by (intro Object.IH [OF m])
  qed
  then obtain st2 s2 where b: "spaced ?close s2" "run cfg st2 s2 = Inr fin" "ready st2"
    "value_records (out st2)
       = value_records (out st1) + sum_list (map (\<lambda>m. leaves (snd m)) ms)"
    by (rule continuesE) blast
  have nq2: "\<not> in_quotes st2" using b(3) by (simp add: ready_def)
  obtain st3 st4 s4 where c: "mode st3 = mode st2" "step cfg st3 (CHR ''}'') = Inr st4"
    "spaced ts s4" "run cfg st4 s4 = Inr fin"
    using consume_punct [OF b(1,2) nq2] by blast
  have nq3: "\<not> in_quotes st3" using c(1) nq2 by (simp add: mode_def)
  have "\<exists>st5. step cfg st3 (CHR ''}'') = Inr st5
          \<and> mode st5 = (False, protect st3, in_unicode st3, 0, False, value_records (out st3))"
    using nq3 by (intro step_close_mode) simp_all
  with c(2) have "mode st4 = (False, protect st3, in_unicode st3, 0, False, value_records (out st3))"
    by auto
  with c(1) b(3,4) m1 have "after_value (Object ms) st st4"
    by (simp add: after_value_def mode_def ready_def)
  with c(3,4) show ?case by (intro continuesI)
qed

lemma document_records:
  assumes "is_container v" and "supported v" and "spaced (tokens v) s"
    and "run cfg (initial cfg) s = Inr fin"
  shows "value_records (out fin) = leaves v"
proof -
  have "continues cfg fin [] (after_value v (initial cfg))"
    using assms by (intro value_mode [of v _ "[]" s]) (simp_all add: ready_def initial_def)
  then obtain st1 s1 where a: "spaced [] s1" "run cfg st1 s1 = Inr fin"
    "after_value v (initial cfg) st1"
    by (rule continuesE)
  from a(3) have m: "mode st1 = (False, False, 0, 0, False, leaves v)"
    using assms(1) by (simp add: after_value_def initial_def)
  then have "\<not> in_quotes st1" by (simp add: mode_def)
  with a(1) obtain st2 where "run cfg st1 s1 = Inr st2" "mode st2 = mode st1"
    using run_white [of s1 st1 cfg] by auto
  with a(2) m show ?thesis by (simp add: mode_def)
qed

text \<open>
  C2 (as amended). With the default configuration the document
  \<open>{"a":{"b":1,"c":[2,3]}}\<close> gives exactly the five records of the specification. More
  generally, take a document that is an array or an object, in which no scalar element
  of an array comes after an element that is an array or object, with white space put
  anywhere between its tokens: if its conversion is not ended by a fatal error, exactly as
  many value records are written as the document has leaf scalars, in every configuration.
\<close>

theorem value_records_of_document:
  assumes "is_container v" and "supported v" and "spaced (tokens v) s"
    and "run cfg (initial cfg) s = Inr fin"
  shows \<open>value_records (out fin) = leaves v
       \<and> convert defaults ''{"a":{"b":1,"c":[2,3]}}''
           = Inr (''/a'' @ [LF] @ ''/a/b = 1'' @ [LF] @ ''/a/c'' @ [LF]
                  @ ''/a/c/0 = 2'' @ [LF] @ ''/a/c/1 = 3'' @ [LF])\<close>
proof
  show "value_records (out fin) = leaves v"
    using assms by (rule document_records)
next
  show \<open>convert defaults ''{"a":{"b":1,"c":[2,3]}}''
           = Inr (''/a'' @ [LF] @ ''/a/b = 1'' @ [LF] @ ''/a/c'' @ [LF]
                  @ ''/a/c/0 = 2'' @ [LF] @ ''/a/c/1 = 3'' @ [LF])\<close>
    by (simp add: eval)
qed

theorem value_records_of_document_witness:
  \<open>\<exists>fin. run defaults (initial defaults) ('' { "a" : {"b":1 ,'' @ [LF] @ ''"c":[ 2,3]} }'' @ [LF])
            = Inr fin
      \<and> value_records (out fin) = 3\<close>
proof -
  let ?v = "Object [([Plain (CHR ''a'')],
              Object [([Plain (CHR ''b'')], Literal ''1''),
                      ([Plain (CHR ''c'')], Array [Literal ''2'', Literal ''3''])])]"
  let ?s = \<open>'' { "a" : {"b":1 ,'' @ [LF] @ ''"c":[ 2,3]} }'' @ [LF]\<close>
  have "\<exists>fin. run defaults (initial defaults) ?s = Inr fin"
    by (simp add: eval)
  then obtain fin where r: "run defaults (initial defaults) ?s = Inr fin" ..
  have c: "is_container ?v" and u: "supported ?v" and sp: "spaced (tokens ?v) ?s"
    by (simp_all add: literal_ok_def white_def)
  have "value_records (out fin) = leaves ?v"
    using value_records_of_document [OF c u sp r] by simp
  with r show ?thesis by simp
qed

text \<open>
  C2 as stated fails in its general part. In \<open>[{"a":1},2]\<close> the closing brace clears the
  value context, so the scalar \<open>2\<close> after the object is taken for a key: the document has
  two leaf scalars and one value record is written. A document that is a single scalar
  gives no record at all.
\<close>

theorem scalar_after_container_lost:
  \<open>spaced (tokens (Array [Object [([Plain (CHR ''a'')], Literal ''1'')], Literal ''2'']))
      ''[{"a":1},2]''
   \<and> leaves (Array [Object [([Plain (CHR ''a'')], Literal ''1'')], Literal ''2'']) = 2
   \<and> map_sum id (\<lambda>st. value_records (out st))
        (run defaults (initial defaults) ''[{"a":1},2]'') = Inr 1
   \<and> convert defaults ''[{"a":1},2]'' = Inr (''/0'' @ [LF] @ ''/0/a = 1'' @ [LF])
   \<and> spaced (tokens (Literal ''7'')) ''7'' \<and> leaves (Literal ''7'') = 1
   \<and> convert defaults ''7'' = Inr []\<close>
  by (simp add: eval white_def)

end
